theory Spec2Isabelle
  imports Main "HOL-Library.Word"
begin

unbundle bit_operations_syntax

text \<open>
  The control core of the Sony IMX415 sensor driver (\<open>modules/imx415/imx415.c\<close>):
  register access over I2C, the register tables, the mode catalog and its best-fit
  search, the streaming switch and the control setter, each as a function on an
  explicit session and bus state, followed by the properties proved of them.
\<close>

section \<open>Machine types and constants of the driver\<close>

type_synonym u8 = "8 word"
type_synonym u16 = "16 word"
type_synonym u32 = "32 word"

text \<open>
  A C \<open>int\<close> that is only ever a return code (\<open>0\<close> or a negative errno) is an
  \<^typ>\<open>int\<close>; \<open>ret |= ...\<close> is \<open>OR\<close> on two's-complement integers. A signed
  32-bit value that takes part in unsigned arithmetic (\<open>ctrl->val\<close>, the distances of
  the mode search) is kept as its bit pattern, a \<^typ>\<open>u32\<close>, and read with \<open>sint\<close>.
\<close>

type_synonym s32 = "32 word"

text \<open>The errno values come from the kernel headers; only their sign matters below.\<close>

definition EIO :: int where
  "EIO = 5"

definition EINVAL :: int where
  "EINVAL = 22"

definition IMX415_REG_STANDBY :: u16 where
  "IMX415_REG_STANDBY = 0x3000"

definition IMX415_LF_GAIN_REG_H :: u16 where
  "IMX415_LF_GAIN_REG_H = 0x3091"

definition IMX415_LF_GAIN_REG_L :: u16 where
  "IMX415_LF_GAIN_REG_L = 0x3090"

definition IMX415_LF_EXPO_REG_H :: u16 where
  "IMX415_LF_EXPO_REG_H = 0x3052"

definition IMX415_LF_EXPO_REG_M :: u16 where
  "IMX415_LF_EXPO_REG_M = 0x3051"

definition IMX415_LF_EXPO_REG_L :: u16 where
  "IMX415_LF_EXPO_REG_L = 0x3050"

definition IMX415_VTS_REG_L :: u16 where
  "IMX415_VTS_REG_L = 0x3024"

definition IMX415_VTS_REG_M :: u16 where
  "IMX415_VTS_REG_M = 0x3025"

definition IMX415_VTS_REG_H :: u16 where
  "IMX415_VTS_REG_H = 0x3026"

definition IMX415_EXPOSURE_MIN :: int where
  "IMX415_EXPOSURE_MIN = 8"

definition IMX415_VTS_MAX :: u32 where
  "IMX415_VTS_MAX = 0x7fff"

definition IMX415_MIRROR_BIT_MASK :: u32 where
  "IMX415_MIRROR_BIT_MASK = push_bit 0 1"

definition IMX415_FLIP_BIT_MASK :: u32 where
  "IMX415_FLIP_BIT_MASK = push_bit 1 1"

definition IMX415_FLIP_REG :: u16 where
  "IMX415_FLIP_REG = 0x3030"

definition REG_NULL :: u16 where
  "REG_NULL = 0xFFFF"

definition IMX415_REG_VALUE_08BIT :: u32 where
  "IMX415_REG_VALUE_08BIT = 1"

definition IMX415_PIXEL_ARRAY_WIDTH :: u32 where
  "IMX415_PIXEL_ARRAY_WIDTH = 3864"

definition IMX415_PIXEL_ARRAY_HEIGHT :: u32 where
  "IMX415_PIXEL_ARRAY_HEIGHT = 2192"

text \<open>The field-extraction macros \<open>IMX415_FETCH_*\<close>, on the type of their argument.\<close>

definition IMX415_FETCH_GAIN_H :: "s32 \<Rightarrow> u32" where
  "IMX415_FETCH_GAIN_H v = signed_drop_bit 8 v AND 0x07"

definition IMX415_FETCH_GAIN_L :: "s32 \<Rightarrow> u32" where
  "IMX415_FETCH_GAIN_L v = v AND 0xFF"

definition IMX415_FETCH_EXP_H :: "u32 \<Rightarrow> u32" where
  "IMX415_FETCH_EXP_H v = drop_bit 16 v AND 0x0F"

definition IMX415_FETCH_EXP_M :: "u32 \<Rightarrow> u32" where
  "IMX415_FETCH_EXP_M v = drop_bit 8 v AND 0xFF"

definition IMX415_FETCH_EXP_L :: "u32 \<Rightarrow> u32" where
  "IMX415_FETCH_EXP_L v = v AND 0xFF"

definition IMX415_FETCH_VTS_H :: "u32 \<Rightarrow> u32" where
  "IMX415_FETCH_VTS_H v = drop_bit 16 v AND 0x0F"

definition IMX415_FETCH_VTS_M :: "u32 \<Rightarrow> u32" where
  "IMX415_FETCH_VTS_M v = drop_bit 8 v AND 0xFF"

definition IMX415_FETCH_VTS_L :: "u32 \<Rightarrow> u32" where
  "IMX415_FETCH_VTS_L v = v AND 0xFF"

section \<open>The I2C transport\<close>

text \<open>
  One entry of the bus log: a buffer handed to \<open>i2c_master_send\<close>, or a combined
  transfer that sends a 16-bit register address and reads \<open>n\<close> bytes back.
\<close>

datatype i2c_xfer = I2C_Send "u8 list" | I2C_Read u16 nat

text \<open>
  The client with the device behind it: the device's register file, the fate of every
  transfer still to come (\<open>True\<close>: it completes in full; past the end of the list
  every transfer completes), and the log of the transfers attempted so far, each with
  its fate.
\<close>

record i2c_client =
  mem :: "u16 \<Rightarrow> u8"
  outcomes :: "bool list"
  xfers :: "(i2c_xfer \<times> bool) list"

definition next_ok :: "i2c_client \<Rightarrow> bool" where
  "next_ok c = (case outcomes c of [] \<Rightarrow> True | b # _ \<Rightarrow> b)"

fun store_bytes :: "(u16 \<Rightarrow> u8) \<Rightarrow> u16 \<Rightarrow> u8 list \<Rightarrow> (u16 \<Rightarrow> u8)" where
  "store_bytes m a [] = m"
| "store_bytes m a (b # bs) = store_bytes (m(a := b)) (a + 1) bs"

definition device_write :: "(u16 \<Rightarrow> u8) \<Rightarrow> u8 list \<Rightarrow> (u16 \<Rightarrow> u8)" where
  "device_write m buf =
     (case buf of
        hi # lo # payload \<Rightarrow> store_bytes m (push_bit 8 (ucast hi) OR ucast lo) payload
      | _ \<Rightarrow> m)"

text \<open>
  Modelled from the spec: the physical transport (\<open>i2c_master_send\<close>,
  \<open>i2c_transfer\<close>) is outside the repository; the spec gives it as an abstract
  register-access capability that either completes or reports a short transfer or NACK.
  A send returns the number of bytes on completion and a negative errno otherwise; a
  completed send stores the payload at the address of its first two bytes.
\<close>

definition i2c_master_send :: "i2c_client \<Rightarrow> u8 list \<Rightarrow> int \<times> i2c_client" where
  "i2c_master_send c buf =
     (let ok = next_ok c
      in (if ok then int (length buf) else - EIO,
          c\<lparr>mem := (if ok then device_write (mem c) buf else mem c),
            outcomes := tl (outcomes c),
            xfers := xfers c @ [(I2C_Send buf, ok)]\<rparr>))"

text \<open>
  Modelled from the spec: the two-message transfer of \<open>imx415_read_reg\<close> (address
  out, \<open>n\<close> bytes in). It returns the number of messages, 2, on completion and a
  negative errno otherwise, with the bytes read from consecutive registers.
\<close>

definition i2c_transfer :: "i2c_client \<Rightarrow> u16 \<Rightarrow> nat \<Rightarrow> int \<times> u8 list \<times> i2c_client" where
  "i2c_transfer c r n =
     (let ok = next_ok c
      in (if ok then 2 else - EIO,
          map (\<lambda>i. mem c (r + of_nat i)) [0..<n],
          c\<lparr>outcomes := tl (outcomes c),
            xfers := xfers c @ [(I2C_Read r n, ok)]\<rparr>))"

section \<open>Register access\<close>

definition cpu_to_be32 :: "u32 \<Rightarrow> u8 list" where
  "cpu_to_be32 v = [ucast (drop_bit 24 v), ucast (drop_bit 16 v), ucast (drop_bit 8 v), ucast v]"

definition be32_to_cpu :: "u8 list \<Rightarrow> u32" where
  "be32_to_cpu bs = foldl (\<lambda>acc b. push_bit 8 acc OR ucast b) 0 bs"

text \<open>
  The copy loop of \<open>imx415_write_reg\<close>:
  \<^verbatim>\<open>while (val_i < 4) buf[buf_i++] = val_p[val_i++];\<close>
  returning the bytes appended to the buffer.
\<close>

function copy_val :: "u8 list \<Rightarrow> nat \<Rightarrow> u8 list" where
  "copy_val val_p val_i = (if val_i < 4 then val_p ! val_i # copy_val val_p (Suc val_i) else [])"
  by pat_completeness auto
termination
  by (relation "measure (\<lambda>(val_p, val_i). 4 - val_i)") auto

declare copy_val.simps [simp del]

text \<open>
  \<open>imx415_write_reg\<close>: the register address, high byte first, then the last \<open>len\<close>
  bytes of the big-endian value. The comparison of the send's result with \<open>len + 2\<close>
  is unsigned, as in C.
\<close>

definition imx415_write_reg :: "i2c_client \<Rightarrow> u16 \<Rightarrow> u32 \<Rightarrow> u32 \<Rightarrow> int \<times> i2c_client" where
  "imx415_write_reg c r len v =
     (if len > 4 then (- EINVAL, c)
      else
        let buf = [ucast (drop_bit 8 r), ucast (r AND 0xff)]
                  @ copy_val (cpu_to_be32 v) (unat (4 - len));
            (n, c') = i2c_master_send c buf
        in if (word_of_int n :: u32) \<noteq> len + 2 then (- EIO, c') else (0, c'))"

text \<open>
  \<open>imx415_read_reg\<close>: the second component is what the call stores in \<open>*val\<close>; on a
  failure the C stores nothing and no caller reads it, the model puts 0 there.
\<close>

definition imx415_read_reg :: "i2c_client \<Rightarrow> u16 \<Rightarrow> u32 \<Rightarrow> int \<times> u32 \<times> i2c_client" where
  "imx415_read_reg c r len =
     (if len > 4 \<or> len = 0 then (- EINVAL, 0, c)
      else
        let (n, bytes, c') = i2c_transfer c r (unat len)
        in if n \<noteq> 2 then (- EIO, 0, c') else (0, be32_to_cpu bytes, c'))"

record imx415_regval =
  reg :: u16
  val :: u8

text \<open>
  \<open>imx415_write_array\<close>:
  \<^verbatim>\<open>for (i = 0; ret == 0 && regs[i].reg != REG_NULL; i++) ret = imx415_write_reg(...);\<close>
  The table is a C array; the loop ends at the first entry whose address is
  \<open>REG_NULL\<close> or after the first failing write. An array with no such entry is read
  past its end, which C leaves undefined: the model returns \<open>None\<close> there.
\<close>

fun imx415_write_array :: "i2c_client \<Rightarrow> imx415_regval list \<Rightarrow> (int \<times> i2c_client) option" where
  "imx415_write_array c [] = None"
| "imx415_write_array c (r # regs) =
     (if reg r = REG_NULL then Some (0, c)
      else
        let (ret, c') = imx415_write_reg c (reg r) IMX415_REG_VALUE_08BIT (ucast (val r))
        in if ret \<noteq> 0 then Some (ret, c') else imx415_write_array c' regs)"

section \<open>Register tables and the mode catalog\<close>

text \<open>
  The table written first at every stream start. As in the source, its last entry is
  \<open>{0x3BCA, 0xBD}\<close>: it carries no \<open>REG_NULL\<close> entry, unlike the table of the mode.
\<close>

definition imx415_common_regs :: "imx415_regval list" where
  "imx415_common_regs =
    [\<lparr>reg = 0x32D4, val = 0x21\<rparr>, \<lparr>reg = 0x32EC, val = 0xA1\<rparr>,
     \<lparr>reg = 0x3452, val = 0x7F\<rparr>, \<lparr>reg = 0x3453, val = 0x03\<rparr>,
     \<lparr>reg = 0x358A, val = 0x04\<rparr>, \<lparr>reg = 0x35A1, val = 0x02\<rparr>,
     \<lparr>reg = 0x36BC, val = 0x0C\<rparr>, \<lparr>reg = 0x36CC, val = 0x53\<rparr>,
     \<lparr>reg = 0x36CD, val = 0x00\<rparr>, \<lparr>reg = 0x36CE, val = 0x3C\<rparr>,
     \<lparr>reg = 0x36D0, val = 0x8C\<rparr>, \<lparr>reg = 0x36D1, val = 0x00\<rparr>,
     \<lparr>reg = 0x36D2, val = 0x71\<rparr>, \<lparr>reg = 0x36D4, val = 0x3C\<rparr>,
     \<lparr>reg = 0x36D6, val = 0x53\<rparr>, \<lparr>reg = 0x36D7, val = 0x00\<rparr>,
     \<lparr>reg = 0x36D8, val = 0x71\<rparr>, \<lparr>reg = 0x36DA, val = 0x8C\<rparr>,
     \<lparr>reg = 0x36DB, val = 0x00\<rparr>, \<lparr>reg = 0x3701, val = 0x00\<rparr>,
     \<lparr>reg = 0x3724, val = 0x02\<rparr>, \<lparr>reg = 0x3726, val = 0x02\<rparr>,
     \<lparr>reg = 0x3732, val = 0x02\<rparr>, \<lparr>reg = 0x3734, val = 0x03\<rparr>,
     \<lparr>reg = 0x3736, val = 0x03\<rparr>, \<lparr>reg = 0x3742, val = 0x03\<rparr>,
     \<lparr>reg = 0x3862, val = 0xE0\<rparr>, \<lparr>reg = 0x38CC, val = 0x30\<rparr>,
     \<lparr>reg = 0x38CD, val = 0x2F\<rparr>, \<lparr>reg = 0x395C, val = 0x0C\<rparr>,
     \<lparr>reg = 0x3A42, val = 0xD1\<rparr>, \<lparr>reg = 0x3A4C, val = 0x77\<rparr>,
     \<lparr>reg = 0x3AE0, val = 0x02\<rparr>, \<lparr>reg = 0x3AEC, val = 0x0C\<rparr>,
     \<lparr>reg = 0x3B00, val = 0x2E\<rparr>, \<lparr>reg = 0x3B06, val = 0x29\<rparr>,
     \<lparr>reg = 0x3B98, val = 0x25\<rparr>, \<lparr>reg = 0x3B99, val = 0x21\<rparr>,
     \<lparr>reg = 0x3B9B, val = 0x13\<rparr>, \<lparr>reg = 0x3B9C, val = 0x13\<rparr>,
     \<lparr>reg = 0x3B9D, val = 0x13\<rparr>, \<lparr>reg = 0x3B9E, val = 0x13\<rparr>,
     \<lparr>reg = 0x3BA1, val = 0x00\<rparr>, \<lparr>reg = 0x3BA2, val = 0x06\<rparr>,
     \<lparr>reg = 0x3BA3, val = 0x0B\<rparr>, \<lparr>reg = 0x3BA4, val = 0x10\<rparr>,
     \<lparr>reg = 0x3BA5, val = 0x14\<rparr>, \<lparr>reg = 0x3BA6, val = 0x18\<rparr>,
     \<lparr>reg = 0x3BA7, val = 0x1A\<rparr>, \<lparr>reg = 0x3BA8, val = 0x1A\<rparr>,
     \<lparr>reg = 0x3BA9, val = 0x1A\<rparr>, \<lparr>reg = 0x3BAC, val = 0xED\<rparr>,
     \<lparr>reg = 0x3BAD, val = 0x01\<rparr>, \<lparr>reg = 0x3BAE, val = 0xF6\<rparr>,
     \<lparr>reg = 0x3BAF, val = 0x02\<rparr>, \<lparr>reg = 0x3BB0, val = 0xA2\<rparr>,
     \<lparr>reg = 0x3BB1, val = 0x03\<rparr>, \<lparr>reg = 0x3BB2, val = 0xE0\<rparr>,
     \<lparr>reg = 0x3BB3, val = 0x03\<rparr>, \<lparr>reg = 0x3BB4, val = 0xE0\<rparr>,
     \<lparr>reg = 0x3BB5, val = 0x03\<rparr>, \<lparr>reg = 0x3BB6, val = 0xE0\<rparr>,
     \<lparr>reg = 0x3BB7, val = 0x03\<rparr>, \<lparr>reg = 0x3BB8, val = 0xE0\<rparr>,
     \<lparr>reg = 0x3BBA, val = 0xE0\<rparr>, \<lparr>reg = 0x3BBC, val = 0xDA\<rparr>,
     \<lparr>reg = 0x3BBE, val = 0x88\<rparr>, \<lparr>reg = 0x3BC0, val = 0x44\<rparr>,
     \<lparr>reg = 0x3BC2, val = 0x7B\<rparr>, \<lparr>reg = 0x3BC4, val = 0xA2\<rparr>,
     \<lparr>reg = 0x3BC8, val = 0xBD\<rparr>, \<lparr>reg = 0x3BCA, val = 0xBD\<rparr>]"

definition imx415_linear_10bit_3864x2192_891M_regs :: "imx415_regval list" where
  "imx415_linear_10bit_3864x2192_891M_regs =
    [\<lparr>reg = 0x3002, val = 0x00\<rparr>, \<lparr>reg = 0x3008, val = 0x7F\<rparr>,
     \<lparr>reg = 0x300A, val = 0x5B\<rparr>, \<lparr>reg = 0x3028, val = 0x98\<rparr>,
     \<lparr>reg = 0x3029, val = 0x08\<rparr>, \<lparr>reg = 0x3031, val = 0x00\<rparr>,
     \<lparr>reg = 0x3032, val = 0x00\<rparr>, \<lparr>reg = 0x3033, val = 0x05\<rparr>,
     \<lparr>reg = 0x3050, val = 0x08\<rparr>, \<lparr>reg = 0x30C1, val = 0x00\<rparr>,
     \<lparr>reg = 0x3116, val = 0x24\<rparr>, \<lparr>reg = 0x311E, val = 0x24\<rparr>,
     \<lparr>reg = 0x4004, val = 0x48\<rparr>, \<lparr>reg = 0x4005, val = 0x09\<rparr>,
     \<lparr>reg = 0x400C, val = 0x00\<rparr>, \<lparr>reg = 0x4018, val = 0x7F\<rparr>,
     \<lparr>reg = 0x401A, val = 0x37\<rparr>, \<lparr>reg = 0x401C, val = 0x37\<rparr>,
     \<lparr>reg = 0x401E, val = 0xF7\<rparr>, \<lparr>reg = 0x401F, val = 0x00\<rparr>,
     \<lparr>reg = 0x4020, val = 0x3F\<rparr>, \<lparr>reg = 0x4022, val = 0x6F\<rparr>,
     \<lparr>reg = 0x4024, val = 0x3F\<rparr>, \<lparr>reg = 0x4026, val = 0x5F\<rparr>,
     \<lparr>reg = 0x4028, val = 0x2F\<rparr>, \<lparr>reg = 0x4074, val = 0x01\<rparr>,
     \<lparr>reg = REG_NULL, val = 0x00\<rparr>]"

record imx415_mode =
  bus_fmt :: u32
  width :: u32
  height :: u32
  max_fps :: "u32 \<times> u32"
  hts_def :: u32
  vts_def :: u32
  exp_def :: u32
  mipi_freq_idx :: u32
  bpp :: u32
  reg_list :: "imx415_regval list"
  data_size :: u32

text \<open>
  The media-bus code of the one compiled-in mode; its value is the kernel header's and
  nothing below depends on it.
\<close>

definition MEDIA_BUS_FMT_SGBRG10_1X10 :: u32 where
  "MEDIA_BUS_FMT_SGBRG10_1X10 = 0x300e"

definition supported_modes :: "imx415_mode list" where
  "supported_modes =
    [\<lparr>bus_fmt = MEDIA_BUS_FMT_SGBRG10_1X10,
      width = IMX415_PIXEL_ARRAY_WIDTH,
      height = IMX415_PIXEL_ARRAY_HEIGHT,
      max_fps = (10000, 300000),
      hts_def = 0x044c * 2 * 2,
      vts_def = 0x08fc,
      exp_def = 0x08fc - 0x08,
      mipi_freq_idx = 0,
      bpp = 10,
      reg_list = imx415_linear_10bit_3864x2192_891M_regs,
      data_size = of_nat (length imx415_linear_10bit_3864x2192_891M_regs)\<rparr>]"

section \<open>Mode selection\<close>

text \<open>The part of \<open>struct v4l2_mbus_framefmt\<close> the driver reads.\<close>

record v4l2_mbus_framefmt =
  fmt_width :: u32
  fmt_height :: u32
  fmt_code :: u32

text \<open>
  The kernel's \<open>abs()\<close> on an \<open>unsigned int\<close>: the argument is converted to
  \<open>int\<close> first, and the negation wraps.
\<close>

definition abs_s32 :: "u32 \<Rightarrow> s32" where
  "abs_s32 x = (if sint x < 0 then - x else x)"

definition imx415_get_reso_dist :: "imx415_mode \<Rightarrow> v4l2_mbus_framefmt \<Rightarrow> s32" where
  "imx415_get_reso_dist mode framefmt =
     abs_s32 (width mode - fmt_width framefmt) + abs_s32 (height mode - fmt_height framefmt)"

text \<open>
  The loop of \<open>imx415_find_best_fit\<close> over the catalog \<open>modes\<close>, from index
  \<open>i\<close> up to \<open>cfg_num\<close>, carrying \<open>cur_best_fit\<close> and \<open>cur_best_fit_dist\<close>.
  An index outside the catalog is a read outside the array: \<open>None\<close>.
\<close>

function find_best_fit_loop ::
  "imx415_mode list \<Rightarrow> nat \<Rightarrow> v4l2_mbus_framefmt \<Rightarrow> nat \<Rightarrow> nat \<Rightarrow> s32 \<Rightarrow> nat option" where
  "find_best_fit_loop modes n framefmt i cur_best_fit cur_best_fit_dist =
     (if i < n then
        (if i < length modes then
           (let dist = imx415_get_reso_dist (modes ! i) framefmt
            in if (cur_best_fit_dist = - 1 \<or> sint dist \<le> sint cur_best_fit_dist)
                  \<and> bus_fmt (modes ! i) = fmt_code framefmt
               then find_best_fit_loop modes n framefmt (Suc i) i dist
               else find_best_fit_loop modes n framefmt (Suc i) cur_best_fit cur_best_fit_dist)
         else None)
      else Some cur_best_fit)"
  by pat_completeness auto
termination
  by (relation "measure (\<lambda>(modes, n, framefmt, i, b, d). n - i)") auto

declare find_best_fit_loop.simps [simp del]

section \<open>The device session\<close>

text \<open>
  Modelled from the spec: a control of the host framework (\<open>struct v4l2_ctrl\<close>), with
  its range and its current value. The framework is outside the repository.
\<close>

record v4l2_ctrl =
  minimum :: int
  maximum :: int
  step :: int
  default_value :: int
  cur_val :: int

text \<open>
  Modelled from the spec: \<open>__v4l2_ctrl_modify_range\<close> of the host framework, which is
  not in the repository. By the spec a range update installs the new bounds and clamps
  the current value down to the new maximum when it exceeds it.
\<close>

definition v4l2_ctrl_modify_range :: "v4l2_ctrl \<Rightarrow> int \<Rightarrow> int \<Rightarrow> int \<Rightarrow> int \<Rightarrow> v4l2_ctrl" where
  "v4l2_ctrl_modify_range ctrl mn mx st df =
     ctrl\<lparr>minimum := mn, maximum := mx, step := st, default_value := df,
          cur_val := (if cur_val ctrl > mx then mx else cur_val ctrl)\<rparr>"

text \<open>
  The fields of \<open>struct imx415\<close> that the functions below read or write.
  \<open>cur_mode\<close> points into the catalog; the model holds the entry it points to.
\<close>

record imx415 =
  nlanes :: u8
  cur_mode :: imx415_mode
  streaming :: bool
  power_on :: bool
  cfg_num :: u32
  cur_vts :: u32
  exposure :: v4l2_ctrl

text \<open>
  \<open>imx415_find_best_fit\<close> on a catalog: the index of the entry whose address the C
  returns. The catalog is a parameter so that the search can be stated for catalogs of
  any size; the driver's own is \<open>supported_modes\<close>.
\<close>

definition find_best_fit_in ::
  "imx415_mode list \<Rightarrow> imx415 \<Rightarrow> v4l2_mbus_framefmt \<Rightarrow> nat option" where
  "find_best_fit_in modes imx framefmt =
     (case find_best_fit_loop modes (unat (cfg_num imx)) framefmt 0 0 (- 1) of
        None \<Rightarrow> None
      | Some cur_best_fit \<Rightarrow> if cur_best_fit < length modes then Some cur_best_fit else None)"

definition imx415_find_best_fit :: "imx415 \<Rightarrow> v4l2_mbus_framefmt \<Rightarrow> nat option" where
  "imx415_find_best_fit imx framefmt = find_best_fit_in supported_modes imx framefmt"

section \<open>Streaming\<close>

text \<open>
  \<open>__imx415_start_stream\<close> over its two tables: the first table, then the second,
  then the standby bit is cleared; the first non-zero return code ends it.
\<close>

definition start_stream_tables ::
  "imx415_regval list \<Rightarrow> imx415_regval list \<Rightarrow> i2c_client \<Rightarrow> (int \<times> i2c_client) option" where
  "start_stream_tables common mode_regs c =
     (case imx415_write_array c common of
        None \<Rightarrow> None
      | Some (ret, c1) \<Rightarrow>
          if ret \<noteq> 0 then Some (ret, c1)
          else
            (case imx415_write_array c1 mode_regs of
               None \<Rightarrow> None
             | Some (ret, c2) \<Rightarrow>
                 if ret \<noteq> 0 then Some (ret, c2)
                 else Some (imx415_write_reg c2 IMX415_REG_STANDBY IMX415_REG_VALUE_08BIT 0)))"

definition imx415_start_stream :: "imx415 \<Rightarrow> i2c_client \<Rightarrow> (int \<times> i2c_client) option" where
  "imx415_start_stream imx c =
     start_stream_tables imx415_common_regs (reg_list (cur_mode imx)) c"

definition imx415_stop_stream :: "imx415 \<Rightarrow> i2c_client \<Rightarrow> int \<times> i2c_client" where
  "imx415_stop_stream imx c = imx415_write_reg c IMX415_REG_STANDBY IMX415_REG_VALUE_08BIT 1"

text \<open>
  \<open>imx415_s_stream\<close>. The runtime-PM core is outside the repository:
  \<open>pm_runtime_get_sync\<close> is the parameter \<open>pm_get_sync\<close>, which returns its result
  and may use the bus (a resume runs the power-on sequence); the \<open>put\<close> calls only
  drop the usage count, which is not modelled. The mutex is held for the whole call.
\<close>

definition imx415_s_stream ::
  "(i2c_client \<Rightarrow> int \<times> i2c_client) \<Rightarrow> imx415 \<Rightarrow> i2c_client \<Rightarrow> int
     \<Rightarrow> (int \<times> imx415 \<times> i2c_client) option" where
  "imx415_s_stream pm_get_sync imx c on_arg =
     (let on = (on_arg \<noteq> 0)
      in if on = streaming imx then Some (0, imx, c)
         else if on then
           (let (ret, c1) = pm_get_sync c
            in if ret < 0 then Some (ret, imx, c1)
               else
                 (case imx415_start_stream imx c1 of
                    None \<Rightarrow> None
                  | Some (ret, c2) \<Rightarrow>
                      if ret \<noteq> 0 then Some (ret, imx, c2)
                      else Some (ret, imx\<lparr>streaming := on\<rparr>, c2)))
         else
           (let (r, c1) = imx415_stop_stream imx c
            in Some (0, imx\<lparr>streaming := on\<rparr>, c1)))"

section \<open>Controls\<close>

datatype ctrl_id =
  V4L2_CID_EXPOSURE
| V4L2_CID_ANALOGUE_GAIN
| V4L2_CID_VBLANK
| V4L2_CID_HFLIP
| V4L2_CID_VFLIP
| V4L2_CID_OTHER

text \<open>
  \<open>imx415_set_ctrl\<close> for the control \<open>cid\<close> with the new value \<open>v\<close>
  (\<open>ctrl->val\<close>). \<open>pm\<close> is what \<open>pm_runtime_get\<close> returns: positive when the device
  is active. The sums and differences of \<open>u32\<close> fields with \<open>ctrl->val\<close> are
  unsigned 32-bit, and \<open>max\<close> is that \<open>u32\<close> result widened to 64 bits.
\<close>

definition imx415_set_ctrl ::
  "int \<Rightarrow> imx415 \<Rightarrow> i2c_client \<Rightarrow> ctrl_id \<Rightarrow> s32 \<Rightarrow> int \<times> imx415 \<times> i2c_client" where
  "imx415_set_ctrl pm imx0 c cid v =
     (let imx =
            (case cid of
               V4L2_CID_VBLANK \<Rightarrow>
                 imx0\<lparr>exposure :=
                        v4l2_ctrl_modify_range (exposure imx0)
                          (minimum (exposure imx0))
                          (uint (height (cur_mode imx0) + v - 4))
                          (step (exposure imx0))
                          (default_value (exposure imx0))\<rparr>
             | _ \<Rightarrow> imx0)
      in if pm \<le> 0 then (0, imx, c)
         else
           (case cid of
              V4L2_CID_EXPOSURE \<Rightarrow>
                (let shr0 = cur_vts imx - v;
                     (r1, c1) = imx415_write_reg c IMX415_LF_EXPO_REG_L IMX415_REG_VALUE_08BIT
                                  (IMX415_FETCH_EXP_L shr0);
                     (r2, c2) = imx415_write_reg c1 IMX415_LF_EXPO_REG_M IMX415_REG_VALUE_08BIT
                                  (IMX415_FETCH_EXP_M shr0);
                     (r3, c3) = imx415_write_reg c2 IMX415_LF_EXPO_REG_H IMX415_REG_VALUE_08BIT
                                  (IMX415_FETCH_EXP_H shr0)
                 in (r1 OR r2 OR r3, imx, c3))
            | V4L2_CID_ANALOGUE_GAIN \<Rightarrow>
                (let (r1, c1) = imx415_write_reg c IMX415_LF_GAIN_REG_H IMX415_REG_VALUE_08BIT
                                  (IMX415_FETCH_GAIN_H v);
                     (r2, c2) = imx415_write_reg c1 IMX415_LF_GAIN_REG_L IMX415_REG_VALUE_08BIT
                                  (IMX415_FETCH_GAIN_L v)
                 in (r1 OR r2, imx, c2))
            | V4L2_CID_VBLANK \<Rightarrow>
                (let vts = v + height (cur_mode imx);
                     imx' = imx\<lparr>cur_vts := vts\<rparr>;
                     (r1, c1) = imx415_write_reg c IMX415_VTS_REG_L IMX415_REG_VALUE_08BIT
                                  (IMX415_FETCH_VTS_L vts);
                     (r2, c2) = imx415_write_reg c1 IMX415_VTS_REG_M IMX415_REG_VALUE_08BIT
                                  (IMX415_FETCH_VTS_M vts);
                     (r3, c3) = imx415_write_reg c2 IMX415_VTS_REG_H IMX415_REG_VALUE_08BIT
                                  (IMX415_FETCH_VTS_H vts)
                 in (r1 OR r2 OR r3, imx', c3))
            | V4L2_CID_HFLIP \<Rightarrow>
                (let (ret, rd, c1) = imx415_read_reg c IMX415_FLIP_REG IMX415_REG_VALUE_08BIT
                 in if ret \<noteq> 0 then (ret, imx, c1)
                    else
                      (let wr = (if v \<noteq> 0 then rd OR IMX415_MIRROR_BIT_MASK
                                 else rd AND NOT IMX415_MIRROR_BIT_MASK);
                           (ret, c2) = imx415_write_reg c1 IMX415_FLIP_REG
                                         IMX415_REG_VALUE_08BIT wr
                       in (ret, imx, c2)))
            | V4L2_CID_VFLIP \<Rightarrow>
                (let (ret, rd, c1) = imx415_read_reg c IMX415_FLIP_REG IMX415_REG_VALUE_08BIT
                 in if ret \<noteq> 0 then (ret, imx, c1)
                    else
                      (let wr = (if v \<noteq> 0 then rd OR IMX415_FLIP_BIT_MASK
                                 else rd AND NOT IMX415_FLIP_BIT_MASK);
                           (ret, c2) = imx415_write_reg c1 IMX415_FLIP_REG
                                         IMX415_REG_VALUE_08BIT wr
                       in (ret, imx, c2)))
            | V4L2_CID_OTHER \<Rightarrow> (0, imx, c)))"

section \<open>Observations on a run\<close>

text \<open>The transfers a call added to the log of the bus.\<close>

definition new_xfers :: "i2c_client \<Rightarrow> i2c_client \<Rightarrow> (i2c_xfer \<times> bool) list" where
  "new_xfers c c' = drop (length (xfers c)) (xfers c')"

text \<open>The fate of the \<open>i\<close>-th transfer from now on.\<close>

definition outcome_at :: "i2c_client \<Rightarrow> nat \<Rightarrow> bool" where
  "outcome_at c i = (if i < length (outcomes c) then outcomes c ! i else True)"

text \<open>How many of the next \<open>n\<close> transfers complete before the first one that fails.\<close>

fun ok_prefix :: "bool list \<Rightarrow> nat \<Rightarrow> nat" where
  "ok_prefix os 0 = 0"
| "ok_prefix [] (Suc n) = Suc (ok_prefix [] n)"
| "ok_prefix (b # os) (Suc n) = (if b then Suc (ok_prefix os n) else 0)"

text \<open>A single-byte register write on the wire: address high, address low, value.\<close>

definition reg_write :: "u16 \<Rightarrow> u8 \<Rightarrow> i2c_xfer" where
  "reg_write r b = I2C_Send [ucast (drop_bit 8 r), ucast r, b]"

text \<open>The register a send addresses: its first two bytes, high byte first.\<close>

fun xfer_reg :: "i2c_xfer \<Rightarrow> u16 option" where
  "xfer_reg (I2C_Send (hi # lo # payload)) = Some (push_bit 8 (ucast hi) OR ucast lo)"
| "xfer_reg x = None"

text \<open>
  The byte offsets of the three multi-byte quantities, in the order the driver writes
  them: exposure low, middle, high; gain high, low; VTS low, middle, high.
\<close>

fun multi_byte_regs :: "ctrl_id \<Rightarrow> u16 list" where
  "multi_byte_regs V4L2_CID_EXPOSURE = [0x3050, 0x3051, 0x3052]"
| "multi_byte_regs V4L2_CID_ANALOGUE_GAIN = [0x3091, 0x3090]"
| "multi_byte_regs V4L2_CID_VBLANK = [0x3024, 0x3025, 0x3026]"
| "multi_byte_regs cid = []"

text \<open>The Manhattan distance between a mode and a request, on the integers.\<close>

definition manhattan :: "imx415_mode \<Rightarrow> v4l2_mbus_framefmt \<Rightarrow> int" where
  "manhattan mode framefmt =
     \<bar>uint (width mode) - uint (fmt_width framefmt)\<bar>
     + \<bar>uint (height mode) - uint (fmt_height framefmt)\<bar>"

text \<open>
  The session after the first \<open>switch\<close> of \<open>imx415_set_ctrl\<close> for
  \<open>V4L2_CID_VBLANK\<close>: the exposure control with its range updated.
\<close>

definition exposure_after_vblank :: "imx415 \<Rightarrow> s32 \<Rightarrow> imx415" where
  "exposure_after_vblank imx v =
     imx\<lparr>exposure := v4l2_ctrl_modify_range (exposure imx) (minimum (exposure imx))
                        (uint (height (cur_mode imx) + v - 4))
                        (step (exposure imx)) (default_value (exposure imx))\<rparr>"

text \<open>
  Two values to run the driver on. \<open>default_session\<close> is the session once
  \<open>imx415_probe\<close> and a first \<open>imx415_set_fmt\<close> have run: mode 0, its default VTS,
  the exposure control on \<open>[8, vts_def - 4]\<close> at the mode's default, and \<open>cfg_num\<close>
  still 0, since no function of the driver assigns it. \<open>bus os\<close> is a bus with a
  zeroed device, an empty log and the fates \<open>os\<close>.
\<close>

definition default_session :: imx415 where
  "default_session =
     \<lparr>nlanes = 4,
      cur_mode = supported_modes ! 0,
      streaming = False,
      power_on = False,
      cfg_num = 0,
      cur_vts = vts_def (supported_modes ! 0),
      exposure = \<lparr>minimum = IMX415_EXPOSURE_MIN,
                  maximum = uint (vts_def (supported_modes ! 0) - 4),
                  step = 1,
                  default_value = uint (exp_def (supported_modes ! 0)),
                  cur_val = uint (exp_def (supported_modes ! 0))\<rparr>\<rparr>"

definition bus :: "bool list \<Rightarrow> i2c_client" where
  "bus os = \<lparr>mem = (\<lambda>a. 0), outcomes = os, xfers = []\<rparr>"

text \<open>
  The transfers \<open>ws\<close> of a run that returned \<open>ret\<close> and stopped at its first
  failure: no transfer but the last one failed; a run that returned 0 had no failure
  at all; any other run returned \<open>-EIO\<close>, the error of its last transfer.
\<close>

definition stops_at_first_failure :: "int \<Rightarrow> (i2c_xfer \<times> bool) list \<Rightarrow> bool" where
  "stops_at_first_failure ret ws =
     ((\<forall>x \<in> set (butlast ws). snd x)
      \<and> (if ret = 0 then (\<forall>x \<in> set ws. snd x) else ret = - EIO \<and> ws \<noteq> [] \<and> \<not> snd (last ws)))"

text \<open>
  The state of the search of \<open>imx415_find_best_fit\<close> before index \<open>i\<close>:
  \<open>best_upto\<close> says that \<open>b\<close> is, among the entries before \<open>i\<close> with the
  requested code, the last one of least distance, as the driver computes the distance.
\<close>

definition best_upto ::
  "imx415_mode list \<Rightarrow> v4l2_mbus_framefmt \<Rightarrow> nat \<Rightarrow> nat \<Rightarrow> bool" where
  "best_upto modes f i b =
     (b < i \<and> bus_fmt (modes ! b) = fmt_code f
      \<and> (\<forall>j<i. bus_fmt (modes ! j) = fmt_code f \<longrightarrow>
            sint (imx415_get_reso_dist (modes ! b) f) \<le> sint (imx415_get_reso_dist (modes ! j) f))
      \<and> (\<forall>j<i. bus_fmt (modes ! j) = fmt_code f \<and> b < j \<longrightarrow>
            sint (imx415_get_reso_dist (modes ! b) f) < sint (imx415_get_reso_dist (modes ! j) f)))"

definition loop_inv ::
  "imx415_mode list \<Rightarrow> v4l2_mbus_framefmt \<Rightarrow> nat \<Rightarrow> nat \<Rightarrow> s32 \<Rightarrow> bool" where
  "loop_inv modes f i b bd =
     ((\<forall>j<i. bus_fmt (modes ! j) \<noteq> fmt_code f) \<and> b = 0 \<and> bd = - 1
      \<or> best_upto modes f i b \<and> bd = imx415_get_reso_dist (modes ! b) f)"

text \<open>
  A catalog of two modes that differ from the compiled-in one in their sizes only, and
  a request for the compiled-in media-bus code.
\<close>

definition two_modes :: "imx415_mode list" where
  "two_modes = [(supported_modes ! 0)\<lparr>width := 1280, height := 720\<rparr>,
                (supported_modes ! 0)\<lparr>width := 1920, height := 720\<rparr>]"

definition request :: "u32 \<Rightarrow> u32 \<Rightarrow> v4l2_mbus_framefmt" where
  "request w h = \<lparr>fmt_width = w, fmt_height = h, fmt_code = MEDIA_BUS_FMT_SGBRG10_1X10\<rparr>"

section \<open>Register writes on the bus\<close>

lemma copy_val_3: "copy_val p 3 = [p ! 3]"
  by (simp add: copy_val.simps)

lemma ucast_and_ff: "ucast (r AND 0xff :: u16) = (ucast r :: u8)"
proof -
  have m: "(0xff :: u16) = mask 8" by (simp add: mask_eq_exp_minus_1)
  show ?thesis
    unfolding m by (rule bit_eqI) (auto simp add: bit_simps)
qed

lemma write_reg_08:
  "imx415_write_reg c r IMX415_REG_VALUE_08BIT v =
     (if next_ok c then 0 else - EIO,
      c\<lparr>mem := (if next_ok c then device_write (mem c) [ucast (drop_bit 8 r), ucast r, ucast v] else mem c),
        outcomes := tl (outcomes c),
        xfers := xfers c @ [(reg_write r (ucast v), next_ok c)]\<rparr>)"
  by (simp add: imx415_write_reg_def IMX415_REG_VALUE_08BIT_def copy_val_3 cpu_to_be32_def
      i2c_master_send_def Let_def reg_write_def EIO_def ucast_and_ff)

lemma xfer_reg_reg_write: "xfer_reg (reg_write r b) = Some r"
  apply (simp add: reg_write_def)
  apply (rule bit_eqI)
  apply (auto simp add: bit_simps)
  done

lemma ucast_val_roundtrip: "(ucast (ucast (b :: u8) :: u32) :: u8) = b"
  by (rule bit_eqI) (auto simp add: bit_simps)

lemma write_array_Cons:
  "reg r \<noteq> REG_NULL \<Longrightarrow>
   imx415_write_array c (r # regs) =
     (if next_ok c
      then imx415_write_array (snd (imx415_write_reg c (reg r) IMX415_REG_VALUE_08BIT (ucast (val r)))) regs
      else Some (- EIO, snd (imx415_write_reg c (reg r) IMX415_REG_VALUE_08BIT (ucast (val r)))))"
  by (simp add: write_reg_08 EIO_def)

lemma write_array_prefix:
  assumes "\<forall>r \<in> set pre. reg r \<noteq> REG_NULL"
  shows "if ok_prefix (outcomes c) (length pre) < length pre
     then (\<exists>c'. imx415_write_array c (pre @ rest) = Some (- EIO, c')
            \<and> xfers c' = xfers c
                 @ map (\<lambda>r. (reg_write (reg r) (val r), True)) (take (ok_prefix (outcomes c) (length pre)) pre)
                 @ [(reg_write (reg (pre ! ok_prefix (outcomes c) (length pre)))
                       (val (pre ! ok_prefix (outcomes c) (length pre))), False)])
     else (\<exists>c1. imx415_write_array c (pre @ rest) = imx415_write_array c1 rest
            \<and> xfers c1 = xfers c @ map (\<lambda>r. (reg_write (reg r) (val r), True)) pre
            \<and> outcomes c1 = drop (length pre) (outcomes c))"
  using assms
proof (induction pre arbitrary: c)
  case Nil
  have "imx415_write_array c rest = imx415_write_array c rest
          \<and> xfers c = xfers c \<and> outcomes c = outcomes c"
    by simp
  then show ?case by auto
next
  case (Cons r pre)
  have r: "reg r \<noteq> REG_NULL" and pre: "\<forall>r \<in> set pre. reg r \<noteq> REG_NULL"
    using Cons.prems by simp_all
  let ?c1 = "snd (imx415_write_reg c (reg r) IMX415_REG_VALUE_08BIT (ucast (val r)))"
  have o1: "outcomes ?c1 = tl (outcomes c)"
    and x1: "xfers ?c1 = xfers c @ [(reg_write (reg r) (val r), next_ok c)]"
    by (simp_all add: write_reg_08 ucast_val_roundtrip)
  show ?case
  proof (cases "next_ok c")
    case False
    then obtain os where os: "outcomes c = False # os"
      by (auto simp: next_ok_def split: list.splits)
    show ?thesis
      using False r x1 by (simp add: write_array_Cons os del: imx415_write_array.simps)
  next
    case True
    have k: "ok_prefix (outcomes c) (Suc (length pre)) = Suc (ok_prefix (outcomes ?c1) (length pre))"
      using True o1 by (cases "outcomes c") (simp_all add: next_ok_def)
    have step: "imx415_write_array c (r # pre @ rest) = imx415_write_array ?c1 (pre @ rest)"
      using True r by (simp add: write_array_Cons del: imx415_write_array.simps)
    show ?thesis
    proof (cases "ok_prefix (outcomes ?c1) (length pre) < length pre")
      case lt: True
      with Cons.IH [OF pre, of ?c1] obtain c' where
        "imx415_write_array ?c1 (pre @ rest) = Some (- EIO, c')"
        "xfers c' = xfers ?c1
           @ map (\<lambda>r. (reg_write (reg r) (val r), True)) (take (ok_prefix (outcomes ?c1) (length pre)) pre)
           @ [(reg_write (reg (pre ! ok_prefix (outcomes ?c1) (length pre)))
                 (val (pre ! ok_prefix (outcomes ?c1) (length pre))), False)]"
        by auto
      then show ?thesis
        using lt True by (simp add: step k x1 del: imx415_write_array.simps)
    next
      case ge: False
      with Cons.IH [OF pre, of ?c1] obtain c1 where
        "imx415_write_array ?c1 (pre @ rest) = imx415_write_array c1 rest"
        "xfers c1 = xfers ?c1 @ map (\<lambda>r. (reg_write (reg r) (val r), True)) pre"
        "outcomes c1 = drop (length pre) (outcomes ?c1)"
        by auto
      then show ?thesis
        using ge True by (auto simp add: step k x1 o1 drop_Suc simp del: imx415_write_array.simps)
    qed
  qed
qed

lemma ok_prefix_le: "ok_prefix os n \<le> n"
  by (induction os n rule: ok_prefix.induct) simp_all

section \<open>Applying a register table\<close>

text \<open>
  Claim C8. Applying a register table writes each entry as a single-byte write in the
  table's order, stops at the first failing write and returns its error, and never
  writes the terminator: for a table with the entries \<open>pre\<close> before its first
  \<open>REG_NULL\<close> entry \<open>t\<close>, and \<open>k\<close> the number of transfers that complete before the
  first failing one among the next \<open>length pre\<close>, the run returns 0 when \<open>k\<close> reaches
  the end of \<open>pre\<close> and \<open>-EIO\<close> otherwise; the bus sees the first \<open>k\<close> entries written
  with success, then the failing write of entry \<open>k\<close> if there is one, and nothing else;
  no send addresses \<open>REG_NULL\<close>.
\<close>

theorem write_array_in_order_until_failure:
  assumes "\<forall>r \<in> set pre. reg r \<noteq> REG_NULL" and "reg t = REG_NULL"
  shows "\<exists>c'. imx415_write_array c (pre @ t # post) =
                Some (if ok_prefix (outcomes c) (length pre) = length pre then 0 else - EIO, c')
           \<and> new_xfers c c' =
                map (\<lambda>r. (reg_write (reg r) (val r), True)) (take (ok_prefix (outcomes c) (length pre)) pre)
                @ (if ok_prefix (outcomes c) (length pre) < length pre
                   then [(reg_write (reg (pre ! ok_prefix (outcomes c) (length pre)))
                            (val (pre ! ok_prefix (outcomes c) (length pre))), False)]
                   else [])
           \<and> (\<forall>x \<in> set (new_xfers c c'). xfer_reg (fst x) \<noteq> Some REG_NULL)"
proof -
  let ?k = "ok_prefix (outcomes c) (length pre)"
  have le: "?k \<le> length pre" by (rule ok_prefix_le)
  have sent: "xfer_reg (fst (reg_write (reg r) (val r), b)) \<noteq> Some REG_NULL" if "r \<in> set pre" for r b
    using that assms(1) by (simp add: xfer_reg_reg_write)
  show ?thesis
  proof (cases "?k < length pre")
    case True
    with write_array_prefix [OF assms(1), of c "t # post"] obtain c' where
      run: "imx415_write_array c (pre @ t # post) = Some (- EIO, c')" and
      log: "xfers c' = xfers c
           @ map (\<lambda>r. (reg_write (reg r) (val r), True)) (take ?k pre)
           @ [(reg_write (reg (pre ! ?k)) (val (pre ! ?k)), False)]"
      by auto
    have "pre ! ?k \<in> set pre" using True by simp
    moreover have "set (take ?k pre) \<subseteq> set pre" by (rule set_take_subset)
    ultimately have "\<forall>x \<in> set (new_xfers c c'). xfer_reg (fst x) \<noteq> Some REG_NULL"
      using sent by (auto simp add: new_xfers_def log)
    then show ?thesis
      using True run by (auto simp add: new_xfers_def log)
  next
    case False
    with le have eq: "?k = length pre" by simp
    from False write_array_prefix [OF assms(1), of c "t # post"] obtain c1 where
      run: "imx415_write_array c (pre @ t # post) = imx415_write_array c1 (t # post)" and
      log: "xfers c1 = xfers c @ map (\<lambda>r. (reg_write (reg r) (val r), True)) pre"
      by auto
    have "imx415_write_array c1 (t # post) = Some (0, c1)"
      using assms(2) by simp
    moreover have "\<forall>x \<in> set (new_xfers c c1). xfer_reg (fst x) \<noteq> Some REG_NULL"
      using sent by (auto simp add: new_xfers_def log)
    ultimately show ?thesis
      using eq run by (auto simp add: new_xfers_def log)
  qed
qed

theorem write_array_in_order_until_failure_witness:
  "\<exists>c'. imx415_write_array \<lparr>mem = \<lambda>a. 0, outcomes = [True, False], xfers = []\<rparr>
            [\<lparr>reg = 0x3000, val = 1\<rparr>, \<lparr>reg = 0x3001, val = 2\<rparr>, \<lparr>reg = 0x3002, val = 3\<rparr>,
             \<lparr>reg = REG_NULL, val = 0\<rparr>] = Some (- EIO, c')
        \<and> new_xfers \<lparr>mem = \<lambda>a. 0, outcomes = [True, False], xfers = []\<rparr> c' =
            [(reg_write 0x3000 1, True), (reg_write 0x3001 2, False)]"
  using write_array_in_order_until_failure
    [of "[\<lparr>reg = 0x3000, val = 1\<rparr>, \<lparr>reg = 0x3001, val = 2\<rparr>, \<lparr>reg = 0x3002, val = 3\<rparr>]"
        "\<lparr>reg = REG_NULL, val = 0\<rparr>"
        "\<lparr>mem = \<lambda>a. 0, outcomes = [True, False], xfers = []\<rparr>" "[]"]
  by (auto simp add: REG_NULL_def)

section \<open>Setting a control\<close>

lemma outcome_at_0: "outcome_at c 0 = next_ok c"
  by (cases "outcomes c") (simp_all add: outcome_at_def next_ok_def)

lemma outcome_at_tl:
  "outcomes c' = tl (outcomes c) \<Longrightarrow> outcome_at c' i = outcome_at c (Suc i)"
  by (cases "outcomes c") (simp_all add: outcome_at_def)

lemma write_reg_08_effect:
  assumes "imx415_write_reg c r IMX415_REG_VALUE_08BIT v = (ret, c')"
  shows "ret = (if outcome_at c 0 then 0 else - EIO)"
    and "xfers c' = xfers c @ [(reg_write r (ucast v), outcome_at c 0)]"
    and "outcome_at c' i = outcome_at c (Suc i)"
proof -
  from assms have c': "c' = c\<lparr>mem := (if next_ok c then device_write (mem c) [ucast (drop_bit 8 r), ucast r, ucast v] else mem c),
        outcomes := tl (outcomes c),
        xfers := xfers c @ [(reg_write r (ucast v), next_ok c)]\<rparr>"
    and ret: "ret = (if next_ok c then 0 else - EIO)"
    by (simp_all add: write_reg_08)
  show "ret = (if outcome_at c 0 then 0 else - EIO)"
    using ret by (simp add: outcome_at_0)
  show "xfers c' = xfers c @ [(reg_write r (ucast v), outcome_at c 0)]"
    using c' by (simp add: outcome_at_0)
  have "outcomes c' = tl (outcomes c)" using c' by simp
  then show "outcome_at c' i = outcome_at c (Suc i)" by (rule outcome_at_tl)
qed

lemma mask_consts: "(0xFF :: u32) = mask 8" "(0x0F :: u32) = mask 4" "(0x07 :: u32) = mask 3"
  by (simp_all add: mask_eq_exp_minus_1)

lemma fetch_L: "(ucast (IMX415_FETCH_EXP_L x) :: u8) = ucast (take_bit 8 x)"
  unfolding IMX415_FETCH_EXP_L_def mask_consts by (rule bit_eqI) (auto simp add: bit_simps)

lemma fetch_M: "(ucast (IMX415_FETCH_EXP_M x) :: u8) = ucast (take_bit 8 (drop_bit 8 x))"
  unfolding IMX415_FETCH_EXP_M_def mask_consts by (rule bit_eqI) (auto simp add: bit_simps)

lemma fetch_H: "(ucast (IMX415_FETCH_EXP_H x) :: u8) = ucast (take_bit 4 (drop_bit 16 x))"
  unfolding IMX415_FETCH_EXP_H_def mask_consts by (rule bit_eqI) (auto simp add: bit_simps)

lemma fetch_gain_H: "(ucast (IMX415_FETCH_GAIN_H x) :: u8) = ucast (take_bit 3 (drop_bit 8 x))"
  unfolding IMX415_FETCH_GAIN_H_def mask_consts by (rule bit_eqI) (auto simp add: bit_simps)

lemma write2:
  assumes "imx415_write_reg c a1 IMX415_REG_VALUE_08BIT v1 = (r1, c1)"
    and "imx415_write_reg c1 a2 IMX415_REG_VALUE_08BIT v2 = (r2, c2)"
  shows "r1 = (if outcome_at c 0 then 0 else - EIO)"
    and "r2 = (if outcome_at c 1 then 0 else - EIO)"
    and "xfers c2 = xfers c @ [(reg_write a1 (ucast v1), outcome_at c 0),
                               (reg_write a2 (ucast v2), outcome_at c 1)]"
    and "outcome_at c2 i = outcome_at c (Suc (Suc i))"
  using write_reg_08_effect [OF assms(1)] write_reg_08_effect [OF assms(2)]
  by simp_all

lemma write3:
  assumes "imx415_write_reg c a1 IMX415_REG_VALUE_08BIT v1 = (r1, c1)"
    and "imx415_write_reg c1 a2 IMX415_REG_VALUE_08BIT v2 = (r2, c2)"
    and "imx415_write_reg c2 a3 IMX415_REG_VALUE_08BIT v3 = (r3, c3)"
  shows "r1 = (if outcome_at c 0 then 0 else - EIO)"
    and "r2 = (if outcome_at c 1 then 0 else - EIO)"
    and "r3 = (if outcome_at c 2 then 0 else - EIO)"
    and "xfers c3 = xfers c @ [(reg_write a1 (ucast v1), outcome_at c 0),
                               (reg_write a2 (ucast v2), outcome_at c 1),
                               (reg_write a3 (ucast v3), outcome_at c 2)]"
  using write2 [OF assms(1,2)] write_reg_08_effect [OF assms(3)]
  by (simp_all add: numeral_2_eq_2)

lemma set_ctrl_exposure:
  assumes "0 < pm"
  obtains r1 r2 r3 c3 where
    "imx415_set_ctrl pm imx c V4L2_CID_EXPOSURE e = (r1 OR r2 OR r3, imx, c3)"
    "r1 = (if outcome_at c 0 then 0 else - EIO)"
    "r2 = (if outcome_at c 1 then 0 else - EIO)"
    "r3 = (if outcome_at c 2 then 0 else - EIO)"
    "xfers c3 = xfers c @
       [(reg_write 0x3050 (ucast (IMX415_FETCH_EXP_L (cur_vts imx - e))), outcome_at c 0),
        (reg_write 0x3051 (ucast (IMX415_FETCH_EXP_M (cur_vts imx - e))), outcome_at c 1),
        (reg_write 0x3052 (ucast (IMX415_FETCH_EXP_H (cur_vts imx - e))), outcome_at c 2)]"
proof -
  let ?s = "cur_vts imx - e"
  obtain r1 c1 where w1: "imx415_write_reg c IMX415_LF_EXPO_REG_L IMX415_REG_VALUE_08BIT (IMX415_FETCH_EXP_L ?s) = (r1, c1)"
    by (cases "imx415_write_reg c IMX415_LF_EXPO_REG_L IMX415_REG_VALUE_08BIT (IMX415_FETCH_EXP_L ?s)")
  obtain r2 c2 where w2: "imx415_write_reg c1 IMX415_LF_EXPO_REG_M IMX415_REG_VALUE_08BIT (IMX415_FETCH_EXP_M ?s) = (r2, c2)"
    by (cases "imx415_write_reg c1 IMX415_LF_EXPO_REG_M IMX415_REG_VALUE_08BIT (IMX415_FETCH_EXP_M ?s)")
  obtain r3 c3 where w3: "imx415_write_reg c2 IMX415_LF_EXPO_REG_H IMX415_REG_VALUE_08BIT (IMX415_FETCH_EXP_H ?s) = (r3, c3)"
    by (cases "imx415_write_reg c2 IMX415_LF_EXPO_REG_H IMX415_REG_VALUE_08BIT (IMX415_FETCH_EXP_H ?s)")
  have run: "imx415_set_ctrl pm imx c V4L2_CID_EXPOSURE e = (r1 OR r2 OR r3, imx, c3)"
    using assms by (simp add: imx415_set_ctrl_def Let_def w1 w2 w3)
  show thesis
    using that [OF run] write3 [OF w1 w2 w3]
    by (simp add: IMX415_LF_EXPO_REG_L_def IMX415_LF_EXPO_REG_M_def IMX415_LF_EXPO_REG_H_def)
qed

lemma set_ctrl_gain:
  assumes "0 < pm"
  obtains r1 r2 c2 where
    "imx415_set_ctrl pm imx c V4L2_CID_ANALOGUE_GAIN v = (r1 OR r2, imx, c2)"
    "r1 = (if outcome_at c 0 then 0 else - EIO)"
    "r2 = (if outcome_at c 1 then 0 else - EIO)"
    "xfers c2 = xfers c @
       [(reg_write 0x3091 (ucast (IMX415_FETCH_GAIN_H v)), outcome_at c 0),
        (reg_write 0x3090 (ucast (IMX415_FETCH_GAIN_L v)), outcome_at c 1)]"
proof -
  obtain r1 c1 where w1: "imx415_write_reg c IMX415_LF_GAIN_REG_H IMX415_REG_VALUE_08BIT (IMX415_FETCH_GAIN_H v) = (r1, c1)"
    by (cases "imx415_write_reg c IMX415_LF_GAIN_REG_H IMX415_REG_VALUE_08BIT (IMX415_FETCH_GAIN_H v)")
  obtain r2 c2 where w2: "imx415_write_reg c1 IMX415_LF_GAIN_REG_L IMX415_REG_VALUE_08BIT (IMX415_FETCH_GAIN_L v) = (r2, c2)"
    by (cases "imx415_write_reg c1 IMX415_LF_GAIN_REG_L IMX415_REG_VALUE_08BIT (IMX415_FETCH_GAIN_L v)")
  have run: "imx415_set_ctrl pm imx c V4L2_CID_ANALOGUE_GAIN v = (r1 OR r2, imx, c2)"
    using assms by (simp add: imx415_set_ctrl_def Let_def w1 w2)
  show thesis
    using that [OF run] write2 [OF w1 w2]
    by (simp add: IMX415_LF_GAIN_REG_H_def IMX415_LF_GAIN_REG_L_def)
qed

lemma set_ctrl_vblank_idle:
  "pm \<le> 0 \<Longrightarrow> imx415_set_ctrl pm imx c V4L2_CID_VBLANK v = (0, exposure_after_vblank imx v, c)"
  by (simp add: imx415_set_ctrl_def exposure_after_vblank_def)

lemma set_ctrl_vblank:
  assumes "0 < pm"
  obtains r1 r2 r3 c3 where
    "imx415_set_ctrl pm imx c V4L2_CID_VBLANK v =
       (r1 OR r2 OR r3, (exposure_after_vblank imx v)\<lparr>cur_vts := v + height (cur_mode imx)\<rparr>, c3)"
    "r1 = (if outcome_at c 0 then 0 else - EIO)"
    "r2 = (if outcome_at c 1 then 0 else - EIO)"
    "r3 = (if outcome_at c 2 then 0 else - EIO)"
    "xfers c3 = xfers c @
       [(reg_write 0x3024 (ucast (IMX415_FETCH_VTS_L (v + height (cur_mode imx)))), outcome_at c 0),
        (reg_write 0x3025 (ucast (IMX415_FETCH_VTS_M (v + height (cur_mode imx)))), outcome_at c 1),
        (reg_write 0x3026 (ucast (IMX415_FETCH_VTS_H (v + height (cur_mode imx)))), outcome_at c 2)]"
proof -
  let ?s = "v + height (cur_mode imx)"
  obtain r1 c1 where w1: "imx415_write_reg c IMX415_VTS_REG_L IMX415_REG_VALUE_08BIT (IMX415_FETCH_VTS_L ?s) = (r1, c1)"
    by (cases "imx415_write_reg c IMX415_VTS_REG_L IMX415_REG_VALUE_08BIT (IMX415_FETCH_VTS_L ?s)")
  obtain r2 c2 where w2: "imx415_write_reg c1 IMX415_VTS_REG_M IMX415_REG_VALUE_08BIT (IMX415_FETCH_VTS_M ?s) = (r2, c2)"
    by (cases "imx415_write_reg c1 IMX415_VTS_REG_M IMX415_REG_VALUE_08BIT (IMX415_FETCH_VTS_M ?s)")
  obtain r3 c3 where w3: "imx415_write_reg c2 IMX415_VTS_REG_H IMX415_REG_VALUE_08BIT (IMX415_FETCH_VTS_H ?s) = (r3, c3)"
    by (cases "imx415_write_reg c2 IMX415_VTS_REG_H IMX415_REG_VALUE_08BIT (IMX415_FETCH_VTS_H ?s)")
  have run: "imx415_set_ctrl pm imx c V4L2_CID_VBLANK v =
       (r1 OR r2 OR r3, (exposure_after_vblank imx v)\<lparr>cur_vts := v + height (cur_mode imx)\<rparr>, c3)"
    using assms by (simp add: imx415_set_ctrl_def exposure_after_vblank_def Let_def w1 w2 w3)
  show thesis
    using that [OF run] write3 [OF w1 w2 w3]
    by (simp add: IMX415_VTS_REG_L_def IMX415_VTS_REG_M_def IMX415_VTS_REG_H_def)
qed

lemma vblank_max_no_wrap:
  fixes h v :: u32
  assumes "46 \<le> sint v" and "sint v \<le> uint IMX415_VTS_MAX - uint h"
  shows "uint (h + v - 4) = uint h + sint v - 4"
proof -
  have hb: "0 \<le> uint h" by simp
  have mx: "uint IMX415_VTS_MAX = 32767" by (simp add: IMX415_VTS_MAX_def)
  have "\<not> bit v 31"
  proof
    assume "bit v 31"
    then have "sint v < 0" by (simp add: bit_last_iff [symmetric] word_size)
    with assms show False by simp
  qed
  then have sv: "sint v = uint v"
    by (intro bit_eqI) (auto simp add: bit_sint_iff bit_uint_iff dest: bit_imp_le_length)
  have sum: "uint h + uint v \<le> 32767" and lo: "46 \<le> uint v"
    using assms sv mx hb by linarith+
  have hv: "uint (h + v) = uint h + uint v"
    using sum hb lo by (simp add: uint_word_ariths take_bit_int_eq_self)
  have b: "0 \<le> uint h + uint v - 4" "uint h + uint v - 4 < 4294967296"
    using sum lo uint_ge_0 [of h] by linarith+
  have "uint (h + v - 4) = uint (h + v) - 4"
    using b hv by (simp add: uint_word_ariths take_bit_eq_mod)
  with hv sv show ?thesis by simp
qed

lemma default_session_simps:
  "height (cur_mode default_session) = 2192"
  "cur_vts default_session = 2300"
  "maximum (exposure default_session) = 2296"
  "cur_val (exposure default_session) = 2292"
  by (simp_all add: default_session_def supported_modes_def IMX415_PIXEL_ARRAY_HEIGHT_def)

text \<open>
  Claim C1. After a \<open>set_vblank(v)\<close> call with \<open>v\<close> in the v-blank range the driver
  installs (\<open>46 \<le> v \<le> IMX415_VTS_MAX - height\<close>), whatever the call returns, the
  maximum of the exposure control is \<open>height + v - 4\<close>, and the exposure value is the
  smaller of its previous value and that maximum: a value above the new maximum is
  clamped down to it. The range update itself is the host framework's.
\<close>

theorem set_vblank_exposure_max:
  assumes "46 \<le> sint v" and "sint v \<le> uint IMX415_VTS_MAX - uint (height (cur_mode imx))"
  shows "case imx415_set_ctrl pm imx c V4L2_CID_VBLANK v of
           (ret, imx', c') \<Rightarrow>
             maximum (exposure imx') = uint (height (cur_mode imx)) + sint v - 4
             \<and> cur_val (exposure imx') = min (cur_val (exposure imx)) (maximum (exposure imx'))"
proof -
  have mx: "maximum (exposure (exposure_after_vblank imx v)) = uint (height (cur_mode imx)) + sint v - 4"
    using vblank_max_no_wrap [OF assms]
    by (simp add: exposure_after_vblank_def v4l2_ctrl_modify_range_def)
  have cv: "cur_val (exposure (exposure_after_vblank imx v))
              = min (cur_val (exposure imx)) (maximum (exposure (exposure_after_vblank imx v)))"
    by (simp add: exposure_after_vblank_def v4l2_ctrl_modify_range_def min_def)
  show ?thesis
  proof (cases "0 < pm")
    case True
    then show ?thesis
      by (rule set_ctrl_vblank [of pm imx c v]) (simp add: mx cv)
  next
    case False
    then show ?thesis
      using mx cv by (simp add: set_ctrl_vblank_idle)
  qed
qed

theorem set_vblank_exposure_max_witness:
  "case imx415_set_ctrl 1 (default_session\<lparr>exposure := (exposure default_session)\<lparr>cur_val := 2296\<rparr>\<rparr>)
          (bus []) V4L2_CID_VBLANK 106 of
     (ret, imx', c') \<Rightarrow> maximum (exposure imx') = 2294 \<and> cur_val (exposure imx') = 2294"
  using set_vblank_exposure_max
    [where v = 106 and pm = 1 and c = "bus []"
       and imx = "default_session\<lparr>exposure := (exposure default_session)\<lparr>cur_val := 2296\<rparr>\<rparr>"]
  by (auto simp add: default_session_def supported_modes_def IMX415_PIXEL_ARRAY_HEIGHT_def
      IMX415_VTS_MAX_def split: prod.splits)

lemma or_errno:
  "((if a then 0 else - EIO) OR (if b then 0 else - EIO) = 0) = (a \<and> b)"
  "((if a then 0 else - EIO) OR (if b then 0 else - EIO) OR (if d then 0 else - EIO) = 0) = (a \<and> b \<and> d)"
  "(if a then 0 else - EIO) OR (if b then 0 else - EIO) = 0
     \<or> (if a then 0 else - EIO) OR (if b then 0 else - EIO) = - EIO"
  "(if a then 0 else - EIO) OR (if b then 0 else - EIO) OR (if d then 0 else - EIO) = 0
     \<or> (if a then 0 else - EIO) OR (if b then 0 else - EIO) OR (if d then 0 else - EIO) = - EIO"
  by (simp_all add: EIO_def)

text \<open>
  Claim C3, as amended. A \<open>set_vblank(v)\<close> call made while the device is active
  (\<open>pm_runtime_get\<close> returns a positive value) stores \<open>v + height\<close> as the current
  VTS and issues three sub-writes; it returns 0 exactly when all three complete and
  \<open>-EIO\<close> otherwise, and the stored VTS is the new one in both cases. A call made
  while the device is not active returns 0 and leaves the current VTS and the bus
  untouched.
\<close>

theorem set_vblank_stores_vts_when_active:
  "case imx415_set_ctrl pm imx c V4L2_CID_VBLANK v of
     (ret, imx', c') \<Rightarrow>
       if 0 < pm
       then cur_vts imx' = v + height (cur_mode imx)
            \<and> length (new_xfers c c') = 3
            \<and> (ret = 0) = (\<forall>x \<in> set (new_xfers c c'). snd x)
            \<and> (ret = 0 \<or> ret = - EIO)
       else ret = 0 \<and> cur_vts imx' = cur_vts imx \<and> c' = c"
proof (cases "0 < pm")
  case True
  show ?thesis
    by (rule set_ctrl_vblank [OF True, of imx c v])
       (use True in \<open>simp add: new_xfers_def or_errno\<close>)
next
  case False
  then show ?thesis
    by (simp add: set_ctrl_vblank_idle exposure_after_vblank_def)
qed

theorem set_vblank_stores_vts_when_active_witness:
  "case imx415_set_ctrl 1 default_session (bus [True, False]) V4L2_CID_VBLANK 200 of
     (ret, imx', c') \<Rightarrow> ret = - EIO \<and> cur_vts imx' = 2392 \<and> length (new_xfers (bus [True, False]) c') = 3"
  using set_vblank_stores_vts_when_active
    [where pm = 1 and imx = default_session and c = "bus [True, False]" and v = 200]
  by (simp add: imx415_set_ctrl_def write_reg_08 Let_def default_session_simps bus_def
      next_ok_def new_xfers_def EIO_def)

text \<open>
  Claim C3 as stated fails: with the device not active the call succeeds and the current
  VTS is still the mode's default, not \<open>200 + height\<close>.
\<close>

theorem set_vblank_idle_keeps_vts_counterexample:
  "case imx415_set_ctrl 0 default_session (bus []) V4L2_CID_VBLANK 200 of
     (ret, imx', c') \<Rightarrow> ret = 0 \<and> cur_vts imx' \<noteq> 200 + height (cur_mode default_session)"
  by (simp add: set_ctrl_vblank_idle exposure_after_vblank_def default_session_simps)

lemma sub_wrap:
  fixes a e :: u32
  shows "uint (a - e) = (uint a - sint e) mod 2 ^ 32"
proof -
  have "a - e = word_of_int (uint a - sint e)"
    by simp
  then have "uint (a - e) = uint (word_of_int (uint a - sint e) :: u32)"
    by simp
  also have "\<dots> = take_bit LENGTH(32) (uint a - sint e)"
    by (simp only: uint_word_of_int_eq)
  also have "\<dots> = (uint a - sint e) mod 2 ^ 32"
    by (simp add: take_bit_eq_mod)
  finally show ?thesis .
qed

text \<open>
  Claim C4. For the exposure, the gain and the VTS, with the device active, every
  sub-write is issued whatever the fate of the earlier ones: the log grows by one send
  per byte offset, in the driver's order, the \<open>i\<close>-th of them with the fate of the
  \<open>i\<close>-th transfer; the accumulated result is 0 exactly when all of them completed and
  \<open>-EIO\<close> otherwise.
\<close>

theorem multi_byte_write_attempts_all:
  assumes "0 < pm"
    and "cid = V4L2_CID_EXPOSURE \<or> cid = V4L2_CID_ANALOGUE_GAIN \<or> cid = V4L2_CID_VBLANK"
  shows "case imx415_set_ctrl pm imx c cid v of
           (ret, imx', c') \<Rightarrow>
             map (\<lambda>x. xfer_reg (fst x)) (new_xfers c c') = map Some (multi_byte_regs cid)
             \<and> map snd (new_xfers c c') = map (outcome_at c) [0..<length (multi_byte_regs cid)]
             \<and> (ret = 0) = (\<forall>x \<in> set (new_xfers c c'). snd x)
             \<and> (ret = 0 \<or> ret = - EIO)"
proof -
  have two: "outcome_at c 2 = outcome_at c (Suc (Suc 0))"
    by (simp add: numeral_2_eq_2)
  from assms(2) consider
    (exposure) "cid = V4L2_CID_EXPOSURE" | (gain) "cid = V4L2_CID_ANALOGUE_GAIN"
    | (vblank) "cid = V4L2_CID_VBLANK"
    by blast
  then show ?thesis
  proof cases
    case exposure
    show ?thesis
      unfolding exposure
      by (rule set_ctrl_exposure [OF assms(1), of imx c v])
         (simp add: new_xfers_def or_errno xfer_reg_reg_write two)
  next
    case gain
    show ?thesis
      unfolding gain
      by (rule set_ctrl_gain [OF assms(1), of imx c v])
         (simp add: new_xfers_def or_errno xfer_reg_reg_write two)
  next
    case vblank
    show ?thesis
      unfolding vblank
      by (rule set_ctrl_vblank [OF assms(1), of imx c v])
         (simp add: new_xfers_def or_errno xfer_reg_reg_write two)
  qed
qed

theorem multi_byte_write_attempts_all_witness:
  "case imx415_set_ctrl 1 default_session (bus [False, True, True]) V4L2_CID_ANALOGUE_GAIN 0xF0 of
     (ret, imx', c') \<Rightarrow>
       new_xfers (bus [False, True, True]) c' = [(reg_write 0x3091 0, False), (reg_write 0x3090 0xF0, True)]
       \<and> ret = - EIO"
  using multi_byte_write_attempts_all
    [where pm = 1 and cid = V4L2_CID_ANALOGUE_GAIN and imx = default_session
       and c = "bus [False, True, True]" and v = "0xF0"]
  by (simp add: imx415_set_ctrl_def write_reg_08 Let_def bus_def next_ok_def new_xfers_def EIO_def
      IMX415_LF_GAIN_REG_H_def IMX415_LF_GAIN_REG_L_def
      IMX415_FETCH_GAIN_H_def IMX415_FETCH_GAIN_L_def)

text \<open>
  Claim C5. With the device active, \<open>set_exposure(e)\<close> sends, to \<open>0x3050\<close>,
  \<open>0x3051\<close> and \<open>0x3052\<close>, bits 0-7, bits 8-15 and bits 16-19 of
  \<open>shr0 = cur_vts - e\<close>. The subtraction is the driver's unsigned 32-bit one: \<open>shr0\<close>
  is the integer difference modulo \<open>2 ^ 32\<close>.
\<close>

theorem set_exposure_writes_shutter:
  assumes "0 < pm"
  shows "case imx415_set_ctrl pm imx c V4L2_CID_EXPOSURE e of
           (ret, imx', c') \<Rightarrow>
             map fst (new_xfers c c') =
               [reg_write 0x3050 (ucast (take_bit 8 (cur_vts imx - e))),
                reg_write 0x3051 (ucast (take_bit 8 (drop_bit 8 (cur_vts imx - e)))),
                reg_write 0x3052 (ucast (take_bit 4 (drop_bit 16 (cur_vts imx - e))))]
             \<and> uint (cur_vts imx - e) = (uint (cur_vts imx) - sint e) mod 2 ^ 32"
proof -
  have wrap: "uint (cur_vts imx - e) = (uint (cur_vts imx) - sint e) mod 2 ^ 32"
    by (rule sub_wrap)
  show ?thesis
    by (rule set_ctrl_exposure [OF assms, of imx c e])
       (simp add: new_xfers_def fetch_L fetch_M fetch_H wrap)
qed

theorem set_exposure_writes_shutter_witness:
  "case imx415_set_ctrl 1 default_session (bus []) V4L2_CID_EXPOSURE 0x100 of
     (ret, imx', c') \<Rightarrow>
       map fst (new_xfers (bus []) c') =
         [reg_write 0x3050 0xFC, reg_write 0x3051 0x07, reg_write 0x3052 0x00]"
  using set_exposure_writes_shutter [where pm = 1 and imx = default_session and c = "bus []" and e = "0x100"]
  by (simp add: default_session_simps split: prod.splits)

lemma be32_to_cpu_single: "be32_to_cpu [b] = ucast b"
  by (simp add: be32_to_cpu_def)

lemma read_reg_08:
  "imx415_read_reg c r IMX415_REG_VALUE_08BIT =
     (if next_ok c then 0 else - EIO,
      if next_ok c then ucast (mem c r) else 0,
      c\<lparr>outcomes := tl (outcomes c), xfers := xfers c @ [(I2C_Read r 1, next_ok c)]\<rparr>)"
  by (simp add: imx415_read_reg_def IMX415_REG_VALUE_08BIT_def i2c_transfer_def Let_def
      be32_to_cpu_single EIO_def)

lemma flip_bytes:
  fixes b :: u8
  shows "bit (ucast ((ucast b :: u32) OR IMX415_MIRROR_BIT_MASK) :: u8) n = (if n = 0 then True else bit b n)"
    and "bit (ucast ((ucast b :: u32) AND NOT IMX415_MIRROR_BIT_MASK) :: u8) n = (if n = 0 then False else bit b n)"
    and "bit (ucast ((ucast b :: u32) OR IMX415_FLIP_BIT_MASK) :: u8) n = (if n = 1 then True else bit b n)"
    and "bit (ucast ((ucast b :: u32) AND NOT IMX415_FLIP_BIT_MASK) :: u8) n = (if n = 1 then False else bit b n)"
  by (auto simp add: IMX415_MIRROR_BIT_MASK_def IMX415_FLIP_BIT_MASK_def bit_simps
      dest: bit_imp_le_length)

lemma set_ctrl_flip_read_fails:
  assumes "0 < pm" and "cid = V4L2_CID_HFLIP \<or> cid = V4L2_CID_VFLIP" and "\<not> outcome_at c 0"
  shows "imx415_set_ctrl pm imx c cid v =
           (- EIO, imx, c\<lparr>outcomes := tl (outcomes c),
                            xfers := xfers c @ [(I2C_Read IMX415_FLIP_REG 1, False)]\<rparr>)"
  using assms by (auto simp add: imx415_set_ctrl_def read_reg_08 outcome_at_0 EIO_def)

lemma set_ctrl_flip_read_ok:
  assumes "0 < pm" and "cid = V4L2_CID_HFLIP \<or> cid = V4L2_CID_VFLIP" and "outcome_at c 0"
  shows "\<exists>c' w. imx415_set_ctrl pm imx c cid v = (if outcome_at c 1 then 0 else - EIO, imx, c')
           \<and> xfers c' = xfers c @ [(I2C_Read IMX415_FLIP_REG 1, True),
                                      (reg_write IMX415_FLIP_REG w, outcome_at c 1)]
           \<and> (\<forall>n. bit w n = (if n = (if cid = V4L2_CID_HFLIP then 0 else 1) then v \<noteq> 0
                               else bit (mem c IMX415_FLIP_REG) n))"
proof -
  let ?c1 = "c\<lparr>outcomes := tl (outcomes c), xfers := xfers c @ [(I2C_Read IMX415_FLIP_REG 1, True)]\<rparr>"
  let ?rd = "ucast (mem c IMX415_FLIP_REG) :: u32"
  have rd: "imx415_read_reg c IMX415_FLIP_REG IMX415_REG_VALUE_08BIT = (0, ?rd, ?c1)"
    using assms(3) by (simp add: read_reg_08 outcome_at_0)
  have "outcome_at ?c1 0 = outcome_at c (Suc 0)"
    by (rule outcome_at_tl) simp
  then have o1: "outcome_at ?c1 0 = outcome_at c 1"
    by simp
  define wr where "wr = (if cid = V4L2_CID_HFLIP
      then (if v \<noteq> 0 then ?rd OR IMX415_MIRROR_BIT_MASK else ?rd AND NOT IMX415_MIRROR_BIT_MASK)
      else (if v \<noteq> 0 then ?rd OR IMX415_FLIP_BIT_MASK else ?rd AND NOT IMX415_FLIP_BIT_MASK))"
  obtain r2 c2 where w: "imx415_write_reg ?c1 IMX415_FLIP_REG IMX415_REG_VALUE_08BIT wr = (r2, c2)"
    by (cases "imx415_write_reg ?c1 IMX415_FLIP_REG IMX415_REG_VALUE_08BIT wr")
  note e = write_reg_08_effect [OF w]
  have run: "imx415_set_ctrl pm imx c cid v = (r2, imx, c2)"
    using assms(1,2) w by (auto simp add: imx415_set_ctrl_def rd wr_def)
  have bits: "\<forall>n. bit (ucast wr :: u8) n = (if n = (if cid = V4L2_CID_HFLIP then 0 else 1) then v \<noteq> 0
                               else bit (mem c IMX415_FLIP_REG) n)"
    by (simp add: wr_def flip_bytes)
  show ?thesis
    using run e(1,2) o1 bits by auto
qed

text \<open>
  Claim C10. For the horizontal and the vertical flip, with the device active: when the
  read of the flip register fails, the call returns \<open>-EIO\<close> and the log holds the
  failed read and no send; when it completes, the byte written back equals the byte
  read in every bit but the targeted one (bit 0 for the mirror, bit 1 for the flip),
  which is set exactly when the control value is non-zero.
\<close>

theorem flip_read_modify_write:
  assumes "0 < pm" and "cid = V4L2_CID_HFLIP \<or> cid = V4L2_CID_VFLIP"
  shows "case imx415_set_ctrl pm imx c cid v of
           (ret, imx', c') \<Rightarrow>
             imx' = imx
             \<and> (if outcome_at c 0
                 then ret = (if outcome_at c 1 then 0 else - EIO)
                      \<and> (\<exists>w. new_xfers c c' =
                                 [(I2C_Read IMX415_FLIP_REG 1, True),
                                  (reg_write IMX415_FLIP_REG w, outcome_at c 1)]
                               \<and> (\<forall>n. bit w n =
                                     (if n = (if cid = V4L2_CID_HFLIP then 0 else 1) then v \<noteq> 0
                                      else bit (mem c IMX415_FLIP_REG) n)))
                 else ret = - EIO \<and> new_xfers c c' = [(I2C_Read IMX415_FLIP_REG 1, False)])"
proof (cases "outcome_at c 0")
  case True
  from set_ctrl_flip_read_ok [OF assms True, of imx v] obtain c' w where
    "imx415_set_ctrl pm imx c cid v = (if outcome_at c 1 then 0 else - EIO, imx, c')"
    "xfers c' = xfers c @ [(I2C_Read IMX415_FLIP_REG 1, True),
                            (reg_write IMX415_FLIP_REG w, outcome_at c 1)]"
    "\<forall>n. bit w n = (if n = (if cid = V4L2_CID_HFLIP then 0 else 1) then v \<noteq> 0
                               else bit (mem c IMX415_FLIP_REG) n)"
    by blast
  then show ?thesis
    using True by (auto simp add: new_xfers_def)
next
  case False
  then show ?thesis
    using set_ctrl_flip_read_fails [OF assms False, of imx v] by (simp add: new_xfers_def)
qed

theorem flip_read_modify_write_witness:
  "case imx415_set_ctrl 1 default_session ((bus [])\<lparr>mem := (\<lambda>a. 0x02)\<rparr>) V4L2_CID_HFLIP 1 of
     (ret, imx', c') \<Rightarrow>
       ret = 0
       \<and> new_xfers ((bus [])\<lparr>mem := (\<lambda>a. 0x02)\<rparr>) c' =
            [(I2C_Read IMX415_FLIP_REG 1, True), (reg_write IMX415_FLIP_REG 0x03, True)]"
  using flip_read_modify_write
    [where pm = 1 and cid = V4L2_CID_HFLIP and imx = default_session
       and c = "(bus [])\<lparr>mem := (\<lambda>a. 0x02)\<rparr>" and v = 1]
  by (simp add: imx415_set_ctrl_def read_reg_08 write_reg_08 bus_def next_ok_def new_xfers_def
      IMX415_MIRROR_BIT_MASK_def)

section \<open>Starting and stopping the stream\<close>

lemma stops_single:
  "stops_at_first_failure (if ok then 0 else - EIO) [(x, ok)]"
  by (simp add: stops_at_first_failure_def EIO_def)

lemma stops_Nil: "stops_at_first_failure 0 []"
  by (simp add: stops_at_first_failure_def)

lemma stops_append:
  assumes "stops_at_first_failure 0 ws1" and "stops_at_first_failure ret ws2"
  shows "stops_at_first_failure ret (ws1 @ ws2)"
proof (cases "ws2 = []")
  case True
  with assms show ?thesis by (auto simp add: stops_at_first_failure_def split: if_splits)
next
  case False
  with assms show ?thesis
    by (auto simp add: stops_at_first_failure_def butlast_append split: if_splits)
qed

lemma write_array_stops:
  "imx415_write_array c regs = Some (ret, c') \<Longrightarrow>
     \<exists>ws. xfers c' = xfers c @ ws \<and> stops_at_first_failure ret ws"
proof (induction regs arbitrary: c)
  case Nil
  then show ?case by simp
next
  case (Cons r regs)
  show ?case
  proof (cases "reg r = REG_NULL")
    case True
    with Cons.prems have "ret = 0" "c' = c" by simp_all
    then show ?thesis using stops_Nil by simp
  next
    case False
    obtain r1 c1 where w: "imx415_write_reg c (reg r) IMX415_REG_VALUE_08BIT (ucast (val r)) = (r1, c1)"
      by (cases "imx415_write_reg c (reg r) IMX415_REG_VALUE_08BIT (ucast (val r))")
    note e = write_reg_08_effect [OF w]
    have one: "stops_at_first_failure r1 [(reg_write (reg r) (ucast (ucast (val r) :: u32)), outcome_at c 0)]"
      unfolding e(1) by (rule stops_single)
    show ?thesis
    proof (cases "r1 = 0")
      case True
      with Cons.prems False w have "imx415_write_array c1 regs = Some (ret, c')" by simp
      from Cons.IH [OF this] obtain ws where
        ws: "xfers c' = xfers c1 @ ws" "stops_at_first_failure ret ws" by blast
      have "stops_at_first_failure ret ([(reg_write (reg r) (ucast (ucast (val r) :: u32)), outcome_at c 0)] @ ws)"
        using one [unfolded True] ws(2) by (rule stops_append)
      then show ?thesis using ws(1) e(2) by auto
    next
      case nz: False
      with Cons.prems False w have "ret = r1" "c' = c1" by simp_all
      then show ?thesis using one e(2) by auto
    qed
  qed
qed

lemma start_stream_tables_stops:
  assumes "start_stream_tables common mode_regs c = Some (ret, c')"
  shows "\<exists>ws. xfers c' = xfers c @ ws \<and> stops_at_first_failure ret ws"
proof -
  from assms obtain r1 c1 where a1: "imx415_write_array c common = Some (r1, c1)"
    by (auto simp add: start_stream_tables_def split: option.splits)
  from write_array_stops [OF a1] obtain ws1 where
    ws1: "xfers c1 = xfers c @ ws1" "stops_at_first_failure r1 ws1" by blast
  show ?thesis
  proof (cases "r1 = 0")
    case False
    with assms a1 have "ret = r1" "c' = c1" by (simp_all add: start_stream_tables_def)
    with ws1 show ?thesis by auto
  next
    case True
    with assms a1 obtain r2 c2 where a2: "imx415_write_array c1 mode_regs = Some (r2, c2)"
      by (auto simp add: start_stream_tables_def split: option.splits)
    from write_array_stops [OF a2] obtain ws2 where
      ws2: "xfers c2 = xfers c1 @ ws2" "stops_at_first_failure r2 ws2" by blast
    have s12: "stops_at_first_failure r2 (ws1 @ ws2)"
      using ws1(2) [unfolded True] ws2(2) by (rule stops_append)
    show ?thesis
    proof (cases "r2 = 0")
      case False
      with assms a1 a2 True have "ret = r2" "c' = c2" by (simp_all add: start_stream_tables_def)
      with ws1(1) ws2(1) s12 show ?thesis by auto
    next
      case r2: True
      with assms a1 a2 True have
        w: "imx415_write_reg c2 IMX415_REG_STANDBY IMX415_REG_VALUE_08BIT 0 = (ret, c')"
        by (simp add: start_stream_tables_def)
      note e = write_reg_08_effect [OF w]
      have "stops_at_first_failure ret [(reg_write IMX415_REG_STANDBY (ucast (0 :: u32)), outcome_at c2 0)]"
        unfolding e(1) by (rule stops_single)
      with s12 [unfolded r2] have "stops_at_first_failure ret
          ((ws1 @ ws2) @ [(reg_write IMX415_REG_STANDBY (ucast (0 :: u32)), outcome_at c2 0)])"
        by (rule stops_append)
      then show ?thesis using ws1(1) ws2(1) e(2) by auto
    qed
  qed
qed

text \<open>
  A stream start from Standby that returns an error leaves the session as it was, the
  streaming flag still off, and returns the first error: the negative result of
  \<open>pm_runtime_get_sync\<close>, or else \<open>-EIO\<close> from the one register write that failed,
  which is the last transfer of the run, every earlier one having completed.
\<close>

lemma s_stream_failed_start:
  assumes "\<not> streaming imx" and "on_arg \<noteq> 0"
    and "imx415_s_stream pm imx c on_arg = Some (ret, imx', c')" and "ret \<noteq> 0"
  shows "imx' = imx \<and> \<not> streaming imx'
         \<and> (if fst (pm c) < 0 then ret = fst (pm c) \<and> c' = snd (pm c)
             else \<exists>ws. xfers c' = xfers (snd (pm c)) @ ws \<and> stops_at_first_failure ret ws)"
proof -
  obtain p c1 where pm: "pm c = (p, c1)" by (cases "pm c")
  show ?thesis
  proof (cases "p < 0")
    case True
    with assms pm show ?thesis by (simp add: imx415_s_stream_def)
  next
    case False
    with assms(1-3) pm obtain r2 c2 where st: "imx415_start_stream imx c1 = Some (r2, c2)"
      by (auto simp add: imx415_s_stream_def split: option.splits)
    with assms pm False have res: "ret = r2" "imx' = imx" "c' = c2"
      by (auto simp add: imx415_s_stream_def split: if_splits)
    from start_stream_tables_stops [OF st [unfolded imx415_start_stream_def]]
    have "\<exists>ws. xfers c2 = xfers c1 @ ws \<and> stops_at_first_failure r2 ws" .
    with res assms(1) pm False show ?thesis by simp
  qed
qed

text \<open>
  Claim C7. A start while already streaming, or a stop while already in standby,
  returns success with the session and the bus exactly as they were: no register
  access takes place.
\<close>

theorem s_stream_self_transition:
  assumes "(on_arg \<noteq> 0) = streaming imx"
  shows "imx415_s_stream pm imx c on_arg = Some (0, imx, c)"
  using assms by (simp add: imx415_s_stream_def)

text \<open>
  The compiled-in common table has 72 entries and none of them is \<open>REG_NULL\<close>. A
  start therefore returns \<open>-EIO\<close> when one of its first 72 writes fails, and reads
  past the end of the table when all 72 complete, where C defines nothing; with two
  tables that carry a terminator the start always returns.
\<close>

lemma common_regs_no_terminator: "\<forall>r \<in> set imx415_common_regs. reg r \<noteq> REG_NULL"
  by (simp add: imx415_common_regs_def REG_NULL_def)

lemma common_regs_length: "length imx415_common_regs = 72"
  by (simp add: imx415_common_regs_def)

lemma start_stream_fails_in_common_table:
  assumes "ok_prefix (outcomes c) 72 < 72"
  shows "\<exists>c'. imx415_start_stream imx c = Some (- EIO, c')"
proof -
  from write_array_prefix [OF common_regs_no_terminator, of c "[]"] assms
  obtain c' where "imx415_write_array c imx415_common_regs = Some (- EIO, c')"
    by (auto simp add: common_regs_length)
  then show ?thesis
    by (simp add: imx415_start_stream_def start_stream_tables_def EIO_def)
qed


lemma write_array_terminated:
  "REG_NULL \<in> reg ` set regs \<Longrightarrow> \<exists>ret c'. imx415_write_array c regs = Some (ret, c')"
proof (induction regs arbitrary: c)
  case Nil
  then show ?case by simp
next
  case (Cons r regs)
  then show ?case
    by (cases "reg r = REG_NULL") (auto simp add: Let_def split: prod.splits)
qed

lemma start_stream_tables_terminated:
  assumes "REG_NULL \<in> reg ` set common" and "REG_NULL \<in> reg ` set mode_regs"
  shows "\<exists>ret c'. start_stream_tables common mode_regs c = Some (ret, c')"
proof -
  from write_array_terminated [OF assms(1)] obtain r1 c1 where
    a1: "imx415_write_array c common = Some (r1, c1)" by blast
  from write_array_terminated [OF assms(2)] obtain r2 c2 where
    a2: "imx415_write_array c1 mode_regs = Some (r2, c2)" by blast
  show ?thesis
    by (cases "imx415_write_reg c2 IMX415_REG_STANDBY IMX415_REG_VALUE_08BIT 0")
       (simp add: start_stream_tables_def a1 a2)
qed

lemma s_stream_start_fails_in_common_table:
  assumes "\<not> streaming imx" and "on_arg \<noteq> 0" and "0 \<le> fst (pm c)"
    and "ok_prefix (outcomes (snd (pm c))) 72 < 72"
  shows "\<exists>c'. imx415_s_stream pm imx c on_arg = Some (- EIO, imx, c')"
proof -
  obtain p c1 where pm: "pm c = (p, c1)" by (cases "pm c")
  with assms(4) have "ok_prefix (outcomes c1) 72 < 72" by simp
  from start_stream_fails_in_common_table [OF this] obtain c' where
    "imx415_start_stream imx c1 = Some (- EIO, c')" by blast
  then show ?thesis
    using assms(1-3) pm by (simp add: imx415_s_stream_def EIO_def)
qed

lemma s_stream_failed_start_example:
  "\<exists>c'. imx415_s_stream (\<lambda>c. (0, c)) default_session (bus [True, False]) 1
            = Some (- EIO, default_session, c')
        \<and> \<not> streaming default_session
        \<and> (\<exists>ws. xfers c' = xfers (bus [True, False]) @ ws \<and> stops_at_first_failure (- EIO) ws)"
proof -
  have "ok_prefix (outcomes (bus [True, False])) 72 < 72"
    by (simp add: bus_def eval_nat_numeral)
  from start_stream_fails_in_common_table [OF this] obtain c' where
    "imx415_start_stream default_session (bus [True, False]) = Some (- EIO, c')" by blast
  then have run: "imx415_s_stream (\<lambda>c. (0, c)) default_session (bus [True, False]) 1
                    = Some (- EIO, default_session, c')"
    by (simp add: imx415_s_stream_def default_session_def EIO_def)
  have idle: "\<not> streaming default_session"
    by (simp add: default_session_def)
  from s_stream_failed_start [OF idle _ run] run idle show ?thesis
    by (simp add: EIO_def)
qed

lemma ok_prefix_Nil: "ok_prefix [] n = n"
  by (induction n) simp_all

lemma ok_prefix_add:
  "ok_prefix os (a + b) =
     (if ok_prefix os a < a then ok_prefix os a else a + ok_prefix (drop a os) b)"
proof (induction os a rule: ok_prefix.induct)
  case (1 os)
  then show ?case by simp
next
  case (2 n)
  then show ?case by (simp add: ok_prefix_Nil)
next
  case (3 b os n)
  then show ?case by simp
qed



lemma start_stream_tables_first_failure:
  assumes "\<forall>r \<in> set pre1. reg r \<noteq> REG_NULL" and "reg t1 = REG_NULL"
    and "\<forall>r \<in> set pre2. reg r \<noteq> REG_NULL" and "reg t2 = REG_NULL"
  shows "\<exists>c'. start_stream_tables (pre1 @ t1 # post1) (pre2 @ t2 # post2) c =
           Some (if ok_prefix (outcomes c) (length pre1 + (length pre2 + 1))
                      = length pre1 + (length pre2 + 1)
                 then 0 else - EIO, c')"
proof -
  let ?n1 = "length pre1" and ?n2 = "length pre2"
  let ?k1 = "ok_prefix (outcomes c) ?n1"
  have k1_le: "?k1 \<le> ?n1" by (rule ok_prefix_le)
  note split1 = ok_prefix_add [of "outcomes c" ?n1 "?n2 + 1"]
  show ?thesis
  proof (cases "?k1 < ?n1")
    case True
    with write_array_prefix [OF assms(1), of c "t1 # post1"] obtain c' where
      "imx415_write_array c (pre1 @ t1 # post1) = Some (- EIO, c')" by auto
    then show ?thesis
      using True split1 by (simp add: start_stream_tables_def EIO_def)
  next
    case False
    with write_array_prefix [OF assms(1), of c "t1 # post1"] obtain c1 where
      a1: "imx415_write_array c (pre1 @ t1 # post1) = imx415_write_array c1 (t1 # post1)"
      and o1: "outcomes c1 = drop ?n1 (outcomes c)" by auto
    have r1: "imx415_write_array c (pre1 @ t1 # post1) = Some (0, c1)"
      using a1 assms(2) by simp
    let ?k2 = "ok_prefix (outcomes c1) ?n2"
    have k2_le: "?k2 \<le> ?n2" by (rule ok_prefix_le)
    note split2 = ok_prefix_add [of "outcomes c1" ?n2 1]
    have total: "ok_prefix (outcomes c) (?n1 + (?n2 + 1)) = ?n1 + ok_prefix (outcomes c1) (?n2 + 1)"
      using False split1 o1 by simp
    show ?thesis
    proof (cases "?k2 < ?n2")
      case True
      with write_array_prefix [OF assms(3), of c1 "t2 # post2"] obtain c' where
        "imx415_write_array c1 (pre2 @ t2 # post2) = Some (- EIO, c')" by auto
      then show ?thesis
        using True split2 total r1 by (simp add: start_stream_tables_def EIO_def)
    next
      case k2: False
      with write_array_prefix [OF assms(3), of c1 "t2 # post2"] obtain c2 where
        a2: "imx415_write_array c1 (pre2 @ t2 # post2) = imx415_write_array c2 (t2 # post2)"
        and o2: "outcomes c2 = drop ?n2 (outcomes c1)" by auto
      have r2: "imx415_write_array c1 (pre2 @ t2 # post2) = Some (0, c2)"
        using a2 assms(4) by simp
      have last: "ok_prefix (outcomes c2) 1 = (if next_ok c2 then 1 else 0)"
        by (cases "outcomes c2") (simp_all add: next_ok_def)
      have k: "ok_prefix (outcomes c1) (?n2 + 1) = ?n2 + (if next_ok c2 then 1 else 0)"
        using k2 split2 o2 last by simp
      show ?thesis
        using r1 r2 total k
        by (simp add: start_stream_tables_def write_reg_08 EIO_def)
    qed
  qed
qed


theorem s_stream_self_transition_witness:
  "imx415_s_stream (\<lambda>c. (0, c)) (default_session\<lparr>streaming := True\<rparr>) (bus []) 1
     = Some (0, default_session\<lparr>streaming := True\<rparr>, bus [])
   \<and> imx415_s_stream (\<lambda>c. (0, c)) default_session (bus []) 0 = Some (0, default_session, bus [])"
  using s_stream_self_transition
      [where on_arg = 1 and imx = "default_session\<lparr>streaming := True\<rparr>"
         and pm = "\<lambda>c. (0, c)" and c = "bus []"]
    s_stream_self_transition
      [where on_arg = 0 and imx = default_session and pm = "\<lambda>c. (0, c)" and c = "bus []"]
  by (simp add: default_session_def)

section \<open>Selecting a mode\<close>

lemma pow2: "(2 :: int) ^ 30 = 1073741824" "(2 :: int) ^ 31 = 2147483648"
  by simp_all

lemma sint_small:
  fixes x :: u32
  assumes "uint x < 2 ^ 31"
  shows "sint x = uint x"
proof -
  have "signed_take_bit 31 (uint x) = uint x"
    using assms uint_ge_0 [of x]
    by (intro signed_take_bit_int_eq_self; simp only: pow2; linarith)
  then show ?thesis by (simp add: sint_uint)
qed

lemma sint_diff_small:
  fixes a b :: u32
  assumes "uint a < 2 ^ 30" and "uint b < 2 ^ 30"
  shows "sint (a - b) = uint a - uint b"
proof -
  have "sint (a - b) = signed_take_bit 31 (sint a - sint b)"
    by (simp add: sint_word_ariths)
  also have "sint a = uint a" using assms(1) by (intro sint_small) simp
  also have "sint b = uint b" using assms(2) by (intro sint_small) simp
  also have "signed_take_bit 31 (uint a - uint b) = uint a - uint b"
    using assms uint_ge_0 [of a] uint_ge_0 [of b]
    by (intro signed_take_bit_int_eq_self; simp only: pow2; linarith)
  finally show ?thesis .
qed

lemma sint_abs_s32:
  fixes x :: u32
  assumes "- (2 ^ 30) < sint x" and "sint x < 2 ^ 30"
  shows "sint (abs_s32 x) = \<bar>sint x\<bar>"
proof (cases "sint x < 0")
  case True
  have "sint (- x) = signed_take_bit 31 (- sint x)"
    by (simp add: sint_word_ariths)
  also have "\<dots> = - sint x"
    using assms by (intro signed_take_bit_int_eq_self; simp only: pow2; linarith)
  finally show ?thesis using True by (simp add: abs_s32_def)
next
  case False
  then show ?thesis by (simp add: abs_s32_def)
qed

lemma reso_dist_manhattan:
  assumes "uint (width m) < 2 ^ 30" and "uint (height m) < 2 ^ 30"
    and "uint (fmt_width f) < 2 ^ 30" and "uint (fmt_height f) < 2 ^ 30"
  shows "sint (imx415_get_reso_dist m f) = manhattan m f"
proof -
  let ?dw = "width m - fmt_width f" and ?dh = "height m - fmt_height f"
  have dw: "sint ?dw = uint (width m) - uint (fmt_width f)"
    using assms by (intro sint_diff_small)
  have dh: "sint ?dh = uint (height m) - uint (fmt_height f)"
    using assms by (intro sint_diff_small)
  have bw: "- (2 ^ 30) < sint ?dw" "sint ?dw < 2 ^ 30"
    using assms uint_ge_0 [of "width m"] uint_ge_0 [of "fmt_width f"] unfolding dw pow2 by linarith+
  have bh: "- (2 ^ 30) < sint ?dh" "sint ?dh < 2 ^ 30"
    using assms uint_ge_0 [of "height m"] uint_ge_0 [of "fmt_height f"] unfolding dh pow2 by linarith+
  have aw: "sint (abs_s32 ?dw) = \<bar>sint ?dw\<bar>" using bw by (rule sint_abs_s32)
  have ah: "sint (abs_s32 ?dh) = \<bar>sint ?dh\<bar>" using bh by (rule sint_abs_s32)
  have "sint (abs_s32 ?dw + abs_s32 ?dh) = signed_take_bit 31 (sint (abs_s32 ?dw) + sint (abs_s32 ?dh))"
    by (simp add: sint_word_ariths)
  also have "\<dots> = \<bar>sint ?dw\<bar> + \<bar>sint ?dh\<bar>"
    unfolding aw ah using bw bh by (intro signed_take_bit_int_eq_self; simp only: pow2; linarith)
  finally show ?thesis
    by (simp add: imx415_get_reso_dist_def manhattan_def dw dh)
qed

lemma loop_inv_step:
  assumes nonneg: "\<forall>j<n. bus_fmt (modes ! j) = fmt_code f \<longrightarrow>
                     0 \<le> sint (imx415_get_reso_dist (modes ! j) f)"
    and i: "i < n"
    and inv: "loop_inv modes f i b bd"
  shows "if (bd = - 1 \<or> sint (imx415_get_reso_dist (modes ! i) f) \<le> sint bd)
            \<and> bus_fmt (modes ! i) = fmt_code f
         then loop_inv modes f (Suc i) i (imx415_get_reso_dist (modes ! i) f)
         else loop_inv modes f (Suc i) b bd"
proof -
  let ?d = "\<lambda>j. sint (imx415_get_reso_dist (modes ! j) f)"
  let ?mt = "\<lambda>j. bus_fmt (modes ! j) = fmt_code f"
  from inv consider
    (none) "\<forall>j<i. \<not> ?mt j" "b = 0" "bd = - 1"
    | (some) "best_upto modes f i b" "bd = imx415_get_reso_dist (modes ! b) f"
    unfolding loop_inv_def by blast
  then show ?thesis
  proof cases
    case none
    show ?thesis
    proof (cases "?mt i")
      case True
      have "best_upto modes f (Suc i) i"
        using none(1) True by (auto simp add: best_upto_def less_Suc_eq)
      then show ?thesis using True none(3) by (simp add: loop_inv_def)
    next
      case False
      then have "\<forall>j<Suc i. \<not> ?mt j" using none(1) by (auto simp add: less_Suc_eq)
      then show ?thesis using False none by (simp add: loop_inv_def)
    qed
  next
    case some
    from some(1) have b: "b < i" "?mt b" by (simp_all add: best_upto_def)
    with nonneg i have "0 \<le> ?d b" by simp
    then have bd_ne: "bd \<noteq> - 1" using some(2) by auto
    have sbd: "sint bd = ?d b" using some(2) by simp
    show ?thesis
    proof (cases "?mt i \<and> ?d i \<le> ?d b")
      case True
      have "best_upto modes f (Suc i) i"
        using some(1) True unfolding best_upto_def
        by (auto simp add: less_Suc_eq intro: order_trans)
      then show ?thesis using True sbd by (simp add: loop_inv_def)
    next
      case False
      have "best_upto modes f (Suc i) b"
        using some(1) False unfolding best_upto_def
        by (auto simp add: less_Suc_eq)
      then show ?thesis using False sbd bd_ne some(2) by (auto simp add: loop_inv_def)
    qed
  qed
qed

lemma find_best_fit_loop_inv:
  assumes n: "n \<le> length modes"
    and nonneg: "\<forall>j<n. bus_fmt (modes ! j) = fmt_code f \<longrightarrow>
                     0 \<le> sint (imx415_get_reso_dist (modes ! j) f)"
  shows "i \<le> n \<Longrightarrow> loop_inv modes f i b bd \<Longrightarrow>
         \<exists>b' bd'. find_best_fit_loop modes n f i b bd = Some b' \<and> loop_inv modes f n b' bd'"
proof (induction "n - i" arbitrary: i b bd)
  case 0
  then have "i = n" by simp
  then show ?case using "0.prems"(2) by (subst find_best_fit_loop.simps) auto
next
  case (Suc k)
  then have i: "i < n" "i < length modes" using n by simp_all
  have k: "k = n - Suc i" using Suc.hyps(2) by simp
  note step = loop_inv_step [OF nonneg i(1) Suc.prems(2)]
  show ?case
  proof (cases "(bd = - 1 \<or> sint (imx415_get_reso_dist (modes ! i) f) \<le> sint bd)
            \<and> bus_fmt (modes ! i) = fmt_code f")
    case True
    with step have "loop_inv modes f (Suc i) i (imx415_get_reso_dist (modes ! i) f)" by simp
    from Suc.hyps(1) [OF k _ this] i(1) obtain b' bd' where
      "find_best_fit_loop modes n f (Suc i) i (imx415_get_reso_dist (modes ! i) f) = Some b'"
      "loop_inv modes f n b' bd'" by auto
    then show ?thesis
      using True i by (subst find_best_fit_loop.simps) (auto simp add: Let_def)
  next
    case False
    with step have "loop_inv modes f (Suc i) b bd" by simp
    from Suc.hyps(1) [OF k _ this] i(1) obtain b' bd' where
      "find_best_fit_loop modes n f (Suc i) b bd = Some b'"
      "loop_inv modes f n b' bd'" by auto
    then show ?thesis
      using False i by (subst find_best_fit_loop.simps) (auto simp add: Let_def)
  qed
qed

text \<open>
  The search on a catalog of any length, for a session whose mode count is that length
  and sizes below \<open>2 ^ 30\<close>: the entry returned has the requested code and the least
  Manhattan distance among such entries, and is the last of those at that distance.
\<close>

lemma find_best_fit_in_last_minimum:
  assumes cfg: "unat (cfg_num imx) = length modes"
    and modes: "\<forall>m \<in> set modes. uint (width m) < 2 ^ 30 \<and> uint (height m) < 2 ^ 30"
    and req: "uint (fmt_width f) < 2 ^ 30" "uint (fmt_height f) < 2 ^ 30"
    and some: "\<exists>m \<in> set modes. bus_fmt m = fmt_code f"
  shows "\<exists>i. find_best_fit_in modes imx f = Some i
           \<and> i < length modes
           \<and> bus_fmt (modes ! i) = fmt_code f
           \<and> (\<forall>j < length modes. bus_fmt (modes ! j) = fmt_code f \<longrightarrow>
                 manhattan (modes ! i) f \<le> manhattan (modes ! j) f)
           \<and> (\<forall>j < length modes. bus_fmt (modes ! j) = fmt_code f
                   \<and> manhattan (modes ! j) f = manhattan (modes ! i) f \<longrightarrow> j \<le> i)"
proof -
  let ?n = "length modes"
  have dist: "sint (imx415_get_reso_dist (modes ! j) f) = manhattan (modes ! j) f" if "j < ?n" for j
    using that modes req by (intro reso_dist_manhattan) simp_all
  have nonneg: "\<forall>j<?n. bus_fmt (modes ! j) = fmt_code f \<longrightarrow>
                  0 \<le> sint (imx415_get_reso_dist (modes ! j) f)"
    by (simp add: dist manhattan_def)
  have "loop_inv modes f 0 0 (- 1)"
    by (simp add: loop_inv_def)
  from find_best_fit_loop_inv [OF order_refl nonneg _ this] obtain b bd where
    run: "find_best_fit_loop modes ?n f 0 0 (- 1) = Some b" and inv: "loop_inv modes f ?n b bd"
    by auto
  from some obtain j0 where "j0 < ?n" "bus_fmt (modes ! j0) = fmt_code f"
    by (auto simp add: in_set_conv_nth)
  with inv have best: "best_upto modes f ?n b"
    by (auto simp add: loop_inv_def)
  then have b: "b < ?n" by (simp add: best_upto_def)
  have res: "find_best_fit_in modes imx f = Some b"
    using run b by (simp add: find_best_fit_in_def cfg)
  have le: "manhattan (modes ! b) f \<le> manhattan (modes ! j) f"
    if "j < ?n" "bus_fmt (modes ! j) = fmt_code f" for j
    using best that b by (simp add: best_upto_def dist [symmetric])
  have last: "j \<le> b"
    if "j < ?n" "bus_fmt (modes ! j) = fmt_code f" "manhattan (modes ! j) f = manhattan (modes ! b) f" for j
  proof (rule ccontr)
    assume "\<not> j \<le> b"
    then have "b < j" by simp
    with best that(1,2) have "sint (imx415_get_reso_dist (modes ! b) f) < sint (imx415_get_reso_dist (modes ! j) f)"
      by (simp add: best_upto_def)
    with that(1,3) b show False by (simp add: dist)
  qed
  from best have "bus_fmt (modes ! b) = fmt_code f" by (simp add: best_upto_def)
  with res b le last show ?thesis by blast
qed

lemma two_modes_simps:
  "length two_modes = 2"
  "width (two_modes ! 0) = 1280" "height (two_modes ! 0) = 720"
  "bus_fmt (two_modes ! 0) = MEDIA_BUS_FMT_SGBRG10_1X10"
  "width (two_modes ! Suc 0) = 1920" "height (two_modes ! Suc 0) = 720"
  "bus_fmt (two_modes ! Suc 0) = MEDIA_BUS_FMT_SGBRG10_1X10"
  by (simp_all add: two_modes_def supported_modes_def)

text \<open>
  On a catalog of two entries that both have the requested code and lie at the same
  distance from the request, the entry returned is the later one.
\<close>

lemma find_best_fit_in_tie_example:
  "find_best_fit_in two_modes (default_session\<lparr>cfg_num := 2\<rparr>) (request 1600 720) = Some 1
   \<and> manhattan (two_modes ! 0) (request 1600 720) = 320
   \<and> manhattan (two_modes ! 1) (request 1600 720) = 320"
  by code_simp

text \<open>
  The driver's own catalog has one entry, and no function of the driver assigns
  \<open>cfg_num\<close>, which stays 0. For a mode count of 0 or 1 the search returns entry 0.
\<close>

lemma find_best_fit_compiled:
  assumes "unat (cfg_num imx) \<le> length supported_modes"
  shows "imx415_find_best_fit imx f = Some 0"
proof -
  have len: "length supported_modes = 1"
    by (simp add: supported_modes_def)
  with assms consider (zero) "unat (cfg_num imx) = 0" | (one) "unat (cfg_num imx) = Suc 0"
    by linarith
  then show ?thesis
  proof cases
    case zero
    then show ?thesis
      by (simp add: imx415_find_best_fit_def find_best_fit_in_def find_best_fit_loop.simps [of _ 0] len)
  next
    case one
    then show ?thesis
      by (simp add: imx415_find_best_fit_def find_best_fit_in_def len Let_def
          find_best_fit_loop.simps [of _ "Suc 0" _ 0] find_best_fit_loop.simps [of _ "Suc 0" _ "Suc 0"])
  qed
qed



text \<open>A request whose code no entry has gets entry 0 all the same.\<close>

lemma find_best_fit_no_match:
  assumes "unat (cfg_num imx) \<le> length supported_modes"
    and "\<forall>m \<in> set supported_modes. bus_fmt m \<noteq> fmt_code f"
  shows "imx415_find_best_fit imx f = Some 0"
  using assms(1) by (rule find_best_fit_compiled)

section \<open>The mode catalog\<close>

text \<open>
  Claim C9. Every mode of the compiled-in catalog has \<open>hts_def \<ge> width\<close>,
  \<open>vts_def \<ge> height\<close>, \<open>exp_def < vts_def - 4\<close>, and an even width and height.
\<close>

theorem catalog_mode_invariants:
  "\<forall>m \<in> set supported_modes.
     uint (width m) \<le> uint (hts_def m)
     \<and> uint (height m) \<le> uint (vts_def m)
     \<and> uint (exp_def m) < uint (vts_def m) - 4
     \<and> even (uint (width m)) \<and> even (uint (height m))"
  by (simp add: supported_modes_def IMX415_PIXEL_ARRAY_WIDTH_def IMX415_PIXEL_ARRAY_HEIGHT_def)

theorem catalog_mode_invariants_witness:
  "supported_modes ! 0 \<in> set supported_modes
   \<and> uint (width (supported_modes ! 0)) = 3864 \<and> uint (hts_def (supported_modes ! 0)) = 4400
   \<and> uint (height (supported_modes ! 0)) = 2192 \<and> uint (vts_def (supported_modes ! 0)) = 2300
   \<and> uint (exp_def (supported_modes ! 0)) = 2292
   \<and> uint (exp_def (supported_modes ! 0)) < uint (vts_def (supported_modes ! 0)) - 4"
proof -
  have m: "supported_modes ! 0 \<in> set supported_modes"
    by (simp add: supported_modes_def)
  from catalog_mode_invariants m
  have "uint (exp_def (supported_modes ! 0)) < uint (vts_def (supported_modes ! 0)) - 4"
    by blast
  with m show ?thesis
    by (simp add: supported_modes_def IMX415_PIXEL_ARRAY_WIDTH_def IMX415_PIXEL_ARRAY_HEIGHT_def)
qed

end
